theory Spec2Isabelle
  imports Complex_Main "HOL-Library.Word"
begin

unbundle bit_operations_syntax

section \<open>JavaScript values used by the program\<close>

text \<open>
  A JavaScript string is a sequence of 16-bit code units. String literals of the source
  are ASCII; \<open>utf16\<close> turns an ASCII literal into its code units.
\<close>

type_synonym jsstring = "16 word list"

definition utf16 :: "string \<Rightarrow> jsstring" where
  "utf16 s = map (\<lambda>c. of_nat (of_char c)) s"

text \<open>
  A JavaScript Number. The elements of a \<open>Float32Array\<close> are NaN, an infinity or a finite
  binary fraction; the finite ones are modelled by the rationals, which contain them all.
  The product \<open>data[i] * 32768\<close> is computed in double precision; multiplying a
  single-precision value by a power of two is exact there, so the product of a finite
  sample is the rational product.
\<close>

datatype number = Finite rat | NaN | PosInfinity | NegInfinity

type_synonym Float32Array = "number list"

fun times :: "number \<Rightarrow> rat \<Rightarrow> number" where
  "times (Finite x) k = Finite (x * k)"
| "times NaN k = NaN"
| "times PosInfinity k = (if k = 0 then NaN else if 0 < k then PosInfinity else NegInfinity)"
| "times NegInfinity k = (if k = 0 then NaN else if 0 < k then NegInfinity else PosInfinity)"

text \<open>The mathematical \<open>truncate\<close> of ECMAScript: rounding towards zero.\<close>

definition js_truncate :: "rat \<Rightarrow> int" where
  "js_truncate x = (if x < 0 then - \<lfloor>- x\<rfloor> else \<lfloor>x\<rfloor>)"

text \<open>
  \<open>ToInt16\<close>, the conversion an \<open>Int16Array\<close> applies to a stored Number: a value that
  is not finite becomes 0; otherwise truncate, reduce modulo \<open>2^16\<close> and read the result
  as two's complement.
\<close>

fun ToInt16 :: "number \<Rightarrow> int" where
  "ToInt16 (Finite x) =
     (let int16bit = js_truncate x mod 2 ^ 16
      in if int16bit \<ge> 2 ^ 15 then int16bit - 2 ^ 16 else int16bit)"
| "ToInt16 NaN = 0"
| "ToInt16 PosInfinity = 0"
| "ToInt16 NegInfinity = 0"

text \<open>
  \<open>new Uint8Array(int16.buffer)\<close>: the bytes of the buffer behind the \<open>Int16Array\<close>.
  Each element occupies two bytes in two's complement, low byte first (typed arrays use
  the byte order of the platform, little-endian on every platform a browser runs on).
\<close>

definition element_bytes :: "int \<Rightarrow> 8 word list" where
  "element_bytes v = [word_of_int (v mod 256), word_of_int (v div 256 mod 256)]"

definition Uint8Array_of_buffer :: "int list \<Rightarrow> 8 word list" where
  "Uint8Array_of_buffer int16 = concat (map element_bytes int16)"

section \<open>Base64\<close>

text \<open>The base 64 alphabet of RFC 4648, table 1, and the padding character.\<close>

definition alphabet :: string where
  "alphabet = ''ABCDEFGHIJKLMNOPQRSTUVWXYZabcdefghijklmnopqrstuvwxyz0123456789+/''"

definition b64char :: "nat \<Rightarrow> 16 word" where
  "b64char n = of_nat (of_char (alphabet ! (n mod 64)))"

definition pad :: "16 word" where
  "pad = 61"

text \<open>
  \<open>btoa\<close> is a builtin of the browser, not code of the repository. It is modelled after
  the platform standard: the call throws \<open>InvalidCharacterError\<close> when the string has a
  code unit above \<open>0xFF\<close>; otherwise each code unit is one byte and the bytes are base64
  encoded. The encoder below works the way implementations do, three bytes at a time
  with shifts and masks.
\<close>

datatype exception = InvalidCharacterError | InvalidStateError | TypeError | Error jsstring

definition sextet :: "8 word \<Rightarrow> 16 word" where
  "sextet w = b64char (unat w)"

fun base64_of_bytes :: "8 word list \<Rightarrow> jsstring" where
  "base64_of_bytes (a # b # c # rest) =
     [sextet (drop_bit 2 a),
      sextet (push_bit 4 (a AND 3) OR drop_bit 4 b),
      sextet (push_bit 2 (b AND 15) OR drop_bit 6 c),
      sextet (c AND 63)] @ base64_of_bytes rest"
| "base64_of_bytes [a, b] =
     [sextet (drop_bit 2 a),
      sextet (push_bit 4 (a AND 3) OR drop_bit 4 b),
      sextet (push_bit 2 (b AND 15)),
      pad]"
| "base64_of_bytes [a] =
     [sextet (drop_bit 2 a), sextet (push_bit 4 (a AND 3)), pad, pad]"
| "base64_of_bytes [] = []"

definition btoa :: "jsstring \<Rightarrow> exception + jsstring" where
  "btoa s = (if list_ex (\<lambda>u. u > 255) s then Inl InvalidCharacterError
             else Inr (base64_of_bytes (map ucast s)))"

text \<open>
  RFC 4648, section 4, in its own words: three input bytes are concatenated to a 24-bit
  group, which is read as four concatenated 6-bit groups, each translated to a character
  of the alphabet. A final group of 8 bits is filled with zero bits on the right to 12
  bits and gives two characters and two padding characters; a final group of 16 bits is
  filled to 18 bits and gives three characters and one padding character.
\<close>

definition group24 :: "8 word \<Rightarrow> 8 word \<Rightarrow> 8 word \<Rightarrow> 24 word" where
  "group24 a b c = word_cat a (word_cat b c :: 16 word)"

definition group18 :: "8 word \<Rightarrow> 8 word \<Rightarrow> 18 word" where
  "group18 a b = word_cat (word_cat a b :: 16 word) (0 :: 2 word)"

definition group12 :: "8 word \<Rightarrow> 12 word" where
  "group12 a = word_cat a (0 :: 4 word)"

definition translate :: "6 word \<Rightarrow> 16 word" where
  "translate s = of_nat (of_char (alphabet ! unat s))"

fun rfc4648_base64 :: "8 word list \<Rightarrow> jsstring" where
  "rfc4648_base64 (a # b # c # rest) =
     (let g = group24 a b c
      in [translate (slice 18 g), translate (slice 12 g),
          translate (slice 6 g), translate (slice 0 g)]) @ rfc4648_base64 rest"
| "rfc4648_base64 [a, b] =
     (let g = group18 a b
      in [translate (slice 12 g), translate (slice 6 g), translate (slice 0 g), pad])"
| "rfc4648_base64 [a] =
     (let g = group12 a
      in [translate (slice 6 g), translate (slice 0 g), pad, pad])"
| "rfc4648_base64 [] = []"

text \<open>
  Decoding, the inverse direction of the same section: four characters give back a 24-bit
  group of three bytes; a final unit with one padding character gives two bytes, with
  two padding characters one byte. A text that is not of this form is rejected.
\<close>

fun index_of :: "'a list \<Rightarrow> 'a \<Rightarrow> nat option" where
  "index_of [] y = None"
| "index_of (x # xs) y = (if x = y then Some 0 else map_option Suc (index_of xs y))"

definition untranslate :: "16 word \<Rightarrow> 6 word option" where
  "untranslate c = map_option of_nat (index_of (utf16 alphabet) c)"

definition bytes3 :: "6 word \<Rightarrow> 6 word \<Rightarrow> 6 word \<Rightarrow> 6 word \<Rightarrow> 8 word list" where
  "bytes3 s1 s2 s3 s4 =
     (let g = (word_cat s1 (word_cat s2 (word_cat s3 s4 :: 12 word) :: 18 word) :: 24 word)
      in [slice 16 g, slice 8 g, slice 0 g])"

definition bytes2 :: "6 word \<Rightarrow> 6 word \<Rightarrow> 6 word \<Rightarrow> 8 word list" where
  "bytes2 s1 s2 s3 =
     (let g = (word_cat s1 (word_cat s2 s3 :: 12 word) :: 18 word)
      in [slice 10 g, slice 2 g])"

definition bytes1 :: "6 word \<Rightarrow> 6 word \<Rightarrow> 8 word list" where
  "bytes1 s1 s2 = (let g = (word_cat s1 s2 :: 12 word) in [slice 4 g])"

fun base64_decode :: "jsstring \<Rightarrow> 8 word list option" where
  "base64_decode [] = Some []"
| "base64_decode (c1 # c2 # c3 # c4 # rest) =
     (case (untranslate c1, untranslate c2) of
        (Some s1, Some s2) \<Rightarrow>
          if rest = [] \<and> c3 = pad \<and> c4 = pad then Some (bytes1 s1 s2)
          else (case untranslate c3 of
                  None \<Rightarrow> None
                | Some s3 \<Rightarrow>
                    if rest = [] \<and> c4 = pad then Some (bytes2 s1 s2 s3)
                    else (case untranslate c4 of
                            None \<Rightarrow> None
                          | Some s4 \<Rightarrow>
                              map_option (\<lambda>bs. bytes3 s1 s2 s3 s4 @ bs)
                                (base64_decode rest)))
      | _ \<Rightarrow> None)"
| "base64_decode _ = None"

section \<open>The PCM encoder: \<open>utils/audio.ts\<close>\<close>

text \<open>
  \<open>encode\<close>: the loop appends \<open>String.fromCharCode(bytes[i])\<close> for \<open>i\<close> from 0 to the
  length of the array, and the result is passed to \<open>btoa\<close>.
\<close>

definition fromCharCode :: "8 word \<Rightarrow> 16 word" where
  "fromCharCode b = ucast b"

function encode_loop :: "8 word list \<Rightarrow> nat \<Rightarrow> jsstring \<Rightarrow> jsstring" where
  "encode_loop bytes i binary =
     (if i < length bytes
      then encode_loop bytes (i + 1) (binary @ [fromCharCode (bytes ! i)])
      else binary)"
  by pat_completeness auto
termination
  by (relation "measure (\<lambda>(bytes, i, binary). length bytes - i)") auto

declare encode_loop.simps [simp del]

definition encode :: "8 word list \<Rightarrow> exception + jsstring" where
  "encode bytes = btoa (encode_loop bytes 0 [])"

text \<open>
  \<open>createBlob\<close>: a zero-filled \<open>Int16Array\<close> of the length of the data, filled by the loop
  \<open>int16[i] = data[i] * 32768\<close>, whose bytes are encoded.
\<close>

record Blob =
  data :: jsstring
  mimeType :: jsstring

function createBlob_loop :: "Float32Array \<Rightarrow> nat \<Rightarrow> int list \<Rightarrow> int list" where
  "createBlob_loop samples i int16 =
     (if i < length samples
      then createBlob_loop samples (i + 1) (int16[i := ToInt16 (times (samples ! i) 32768)])
      else int16)"
  by pat_completeness auto
termination
  by (relation "measure (\<lambda>(samples, i, int16). length samples - i)") auto

declare createBlob_loop.simps [simp del]

definition createBlob :: "Float32Array \<Rightarrow> exception + Blob" where
  "createBlob samples =
     (let l = length samples;
          int16 = createBlob_loop samples 0 (replicate l 0)
      in case encode (Uint8Array_of_buffer int16) of
           Inl e \<Rightarrow> Inl e
         | Inr d \<Rightarrow> Inr \<lparr>data = d, mimeType = utf16 ''audio/pcm;rate=16000''\<rparr>)"

text \<open>
  The conversion of one sample as the specification words it: scale by 32768, round
  towards zero, keep the value in a signed 16-bit container (which wraps), and write the
  low byte first.
\<close>

definition round_toward_zero :: "rat \<Rightarrow> int" where
  "round_toward_zero x = (if 0 \<le> x then \<lfloor>x\<rfloor> else \<lceil>x\<rceil>)"

definition pcm16 :: "rat \<Rightarrow> 16 word" where
  "pcm16 x = word_of_int (round_toward_zero (x * 32768))"

definition little_endian :: "16 word \<Rightarrow> 8 word list" where
  "little_endian w = [ucast w, ucast (drop_bit 8 w)]"

section \<open>The component: \<open>App.tsx\<close>\<close>

subsection \<open>Strings: truthiness and \<open>trim\<close>\<close>

text \<open>
  \<open>String.prototype.trim\<close> removes white space and line terminators from both ends:
  TAB, LF, VT, FF, CR, SPACE, NBSP, U+1680, U+2000 to U+200A, U+2028, U+2029, U+202F,
  U+205F, U+3000 and U+FEFF. A string is truthy when it is not empty.
\<close>

definition isWhiteSpace :: "16 word \<Rightarrow> bool" where
  "isWhiteSpace u =
     (u \<in> {9, 10, 11, 12, 13, 32, 160, 5760, 8232, 8233, 8239, 8287, 12288, 65279}
      \<or> (8192 \<le> u \<and> u \<le> 8202))"

definition trim :: "jsstring \<Rightarrow> jsstring" where
  "trim s = rev (dropWhile isWhiteSpace (rev (dropWhile isWhiteSpace s)))"

definition truthy :: "jsstring \<Rightarrow> bool" where
  "truthy s = (s \<noteq> [])"

text \<open>The specification's "non-blank": the text has a character that is not white space.\<close>

definition nonblank :: "jsstring \<Rightarrow> bool" where
  "nonblank s = list_ex (\<lambda>u. \<not> isWhiteSpace u) s"

text \<open>\<open>s += v\<close> where \<open>v\<close> may be \<open>undefined\<close>, which concatenates the text "undefined".\<close>

definition plus_assign :: "jsstring \<Rightarrow> jsstring option \<Rightarrow> jsstring" where
  "plus_assign s v = s @ (case v of None \<Rightarrow> utf16 ''undefined'' | Some t \<Rightarrow> t)"

text \<open>\<open>e.message || 'Unknown error'\<close>.\<close>

definition message_or_unknown :: "jsstring option \<Rightarrow> jsstring" where
  "message_or_unknown m =
     (case m of None \<Rightarrow> utf16 ''Unknown error''
      | Some t \<Rightarrow> if truthy t then t else utf16 ''Unknown error'')"

subsection \<open>State\<close>

record TranscriptionHistory =
  user :: jsstring
  translation :: jsstring

text \<open>
  The promise returned by \<open>ai.live.connect\<close> is pending while the connection is made;
  \<open>settles\<close> is how it settles in the end. Whatever awaits it (a call of
  \<open>stopRecording\<close>, the continuation of a frame) is resumed in a step of its own, so that
  other handlers run while it is pending. The callbacks
  handed to \<open>connect\<close> are closures created by one call of \<open>startRecording\<close>; the only
  variable of the component they read that differs between renders is the constant
  \<open>isRecording\<close> of the render whose \<open>startRecording\<close> was called. The
  \<open>onaudioprocess\<close> handler that \<open>onopen\<close> installs closes over the same constant.
\<close>

datatype settlement = fulfilled | rejected

datatype LiveSessionPromise =
  LiveSessionPromise (settles: settlement) (callbacks_isRecording: bool)

datatype ScriptProcessorNode =
  ScriptProcessorNode (onaudioprocess_isRecording: bool)

datatype MediaStream = MediaStream

datatype AudioContextState = suspended | running | closed

text \<open>Calls into the platform and the remote session, in the order they are made.\<close>

datatype call =
    track_stop
  | node_connect
  | node_disconnect
  | context_close
  | session_close
  | sendRealtimeInput Blob

text \<open>
  The other setters are called with values, and a field of the state below holds the
  value set last, which the next render shows. \<open>setHistory\<close> is always called with an
  updater function. React queues an updater and applies the queue to the state at the
  next render. The updater of the turn-complete branch and of the file upload append a
  record built from constants; the updater of \<open>stopRecording\<close> reads the two
  transcription refs when it runs. (React may also run an updater in the call itself when
  the component has no update pending. \<open>stopRecording\<close> called during a recording
  episode has changed \<open>isRecording\<close> before it reaches \<open>setHistory\<close>, so that its
  updater is queued; the model is the queue.)
\<close>

datatype history_updater =
    append_record TranscriptionHistory
  | append_refs

record App =
  isRecording :: bool
  isConnecting :: bool
  isProcessingFile :: bool
  userTranscript :: jsstring
  malayalamTranslation :: jsstring
  history :: "TranscriptionHistory list"
  history_queue :: "history_updater list"
  error :: "jsstring option"
  sessionPromiseRef :: "LiveSessionPromise option"
  streamRef :: "MediaStream option"
  audioContextRef :: "AudioContextState option"
  scriptProcessorRef :: "ScriptProcessorNode option"
  currentInputTranscriptionRef :: jsstring
  currentOutputTranscriptionRef :: jsstring
  calls :: "call list"

definition initial :: App where
  "initial =
     \<lparr>isRecording = False, isConnecting = False, isProcessingFile = False,
      userTranscript = [], malayalamTranslation = [], history = [], history_queue = [],
      error = None, sessionPromiseRef = None, streamRef = None, audioContextRef = None,
      scriptProcessorRef = None, currentInputTranscriptionRef = [],
      currentOutputTranscriptionRef = [], calls = []\<rparr>"

definition setHistory :: "history_updater \<Rightarrow> App \<Rightarrow> App" where
  "setHistory f st = st\<lparr>history_queue := history_queue st @ [f]\<rparr>"

fun run_updater :: "App \<Rightarrow> TranscriptionHistory list \<Rightarrow> history_updater \<Rightarrow> TranscriptionHistory list" where
  "run_updater st prev (append_record r) = prev @ [r]"
| "run_updater st prev append_refs =
     prev @ [\<lparr>user = currentInputTranscriptionRef st,
              translation = currentOutputTranscriptionRef st\<rparr>]"

definition render :: "App \<Rightarrow> App" where
  "render st =
     st\<lparr>history := foldl (run_updater st) (history st) (history_queue st),
        history_queue := []\<rparr>"

subsection \<open>\<open>stopRecording\<close>\<close>

text \<open>
  \<open>AudioContext.close()\<close> rejects with \<open>InvalidStateError\<close> on a context that is closed
  already. An exception that leaves \<open>stopRecording\<close> is returned with the state reached.
\<close>

definition AudioContext_close :: "AudioContextState \<Rightarrow> exception + AudioContextState" where
  "AudioContext_close s = (if s = closed then Inl InvalidStateError else Inr closed)"

text \<open>The four guarded release steps, in the order of the source.\<close>

definition stop_tracks :: "App \<Rightarrow> App" where
  "stop_tracks st =
     (if streamRef st \<noteq> None
      then st\<lparr>calls := calls st @ [track_stop], streamRef := None\<rparr>
      else st)"

definition disconnect_processor :: "App \<Rightarrow> App" where
  "disconnect_processor st =
     (if scriptProcessorRef st \<noteq> None \<and> audioContextRef st \<noteq> None
      then st\<lparr>calls := calls st @ [node_disconnect], scriptProcessorRef := None\<rparr>
      else st)"

definition close_context :: "App \<Rightarrow> exception + App" where
  "close_context st =
     (case audioContextRef st of
        None \<Rightarrow> Inr st
      | Some s \<Rightarrow>
          if s \<noteq> closed
          then (case AudioContext_close s of
                  Inl e \<Rightarrow> Inl e
                | Inr s' \<Rightarrow>
                    Inr (st\<lparr>calls := calls st @ [context_close], audioContextRef := None\<rparr>))
          else Inr st)"

text \<open>
  Awaiting a rejected session promise throws inside the \<open>try\<close> block, which only logs;
  the ref is cleared either way.
\<close>

definition close_session :: "App \<Rightarrow> App" where
  "close_session st =
     (case sessionPromiseRef st of
        None \<Rightarrow> st
      | Some p \<Rightarrow>
          (case settles p of
             fulfilled \<Rightarrow> st\<lparr>calls := calls st @ [session_close]\<rparr>
           | rejected \<Rightarrow> st)\<lparr>sessionPromiseRef := None\<rparr>)"

text \<open>
  The end of \<open>stopRecording\<close>: when one of the two refs is truthy the updater that reads
  the refs is queued; then the mirrors and the refs are cleared.
\<close>

definition commit_pending :: "App \<Rightarrow> App" where
  "commit_pending st =
     (let st1 = (if truthy (currentInputTranscriptionRef st)
                    \<or> truthy (currentOutputTranscriptionRef st)
                 then setHistory append_refs st
                 else st)
      in st1\<lparr>userTranscript := [], malayalamTranslation := [],
             currentInputTranscriptionRef := [], currentOutputTranscriptionRef := []\<rparr>)"

definition stopRecording :: "App \<Rightarrow> exception option \<times> App" where
  "stopRecording st0 =
     (let st1 = st0\<lparr>isRecording := False, isConnecting := False\<rparr>;
          st2 = stop_tracks st1;
          st3 = disconnect_processor st2
      in case close_context st3 of
           Inl e \<Rightarrow> (Some e, st3)
         | Inr st4 \<Rightarrow> (None, commit_pending (close_session st4)))"

subsection \<open>\<open>stopRecording\<close>, await by await\<close>

text \<open>
  The definition above is the function run from its call to its return with no other
  handler in between. In the source it is an async function that gives way twice, at
  \<open>await audioContextRef.current.close()\<close> and at \<open>await sessionPromiseRef.current\<close>,
  and other handlers run before it is resumed. Its three stretches: from the call to the
  first await that is reached; from the settlement of the promise of \<open>close()\<close> on; from
  the settlement of the session promise on. The audio-context ref is cleared after the
  first await and the session ref after the second, whatever they hold by then. The
  promise of \<open>close()\<close> is rejected when the context is being closed by an earlier call.
\<close>

datatype stop_point = awaiting_close | awaiting_session LiveSessionPromise

datatype stop_outcome = waiting stop_point | returned | threw exception

definition stop_session_step :: "App \<Rightarrow> stop_outcome \<times> App" where
  "stop_session_step st =
     (case sessionPromiseRef st of
        None \<Rightarrow> (returned, commit_pending st)
      | Some p \<Rightarrow> (waiting (awaiting_session p), st))"

definition stop_begin :: "App \<Rightarrow> stop_outcome \<times> App" where
  "stop_begin st0 =
     (let st1 = st0\<lparr>isRecording := False, isConnecting := False\<rparr>;
          st2 = stop_tracks st1;
          st3 = disconnect_processor st2
      in case audioContextRef st3 of
           None \<Rightarrow> stop_session_step st3
         | Some s \<Rightarrow>
             if s \<noteq> closed
             then (waiting awaiting_close, st3\<lparr>calls := calls st3 @ [context_close]\<rparr>)
             else stop_session_step st3)"

definition stop_after_close :: "settlement \<Rightarrow> App \<Rightarrow> stop_outcome \<times> App" where
  "stop_after_close s st =
     (case s of
        fulfilled \<Rightarrow> stop_session_step (st\<lparr>audioContextRef := None\<rparr>)
      | rejected \<Rightarrow> (threw InvalidStateError, st))"

definition stop_after_session :: "LiveSessionPromise \<Rightarrow> App \<Rightarrow> stop_outcome \<times> App" where
  "stop_after_session p st =
     (returned,
      commit_pending
        ((case settles p of
            fulfilled \<Rightarrow> st\<lparr>calls := calls st @ [session_close]\<rparr>
          | rejected \<Rightarrow> st)\<lparr>sessionPromiseRef := None\<rparr>))"

text \<open>A call that is resumed at once at each await, the promise of \<open>close()\<close> fulfilled.\<close>

definition stop_uninterrupted :: "App \<Rightarrow> stop_outcome \<times> App" where
  "stop_uninterrupted st =
     (case stop_begin st of
        (waiting awaiting_close, st1) \<Rightarrow>
          (case stop_after_close fulfilled st1 of
             (waiting (awaiting_session p), st2) \<Rightarrow> stop_after_session p st2
           | r \<Rightarrow> r)
      | (waiting (awaiting_session p), st1) \<Rightarrow> stop_after_session p st1
      | r \<Rightarrow> r)"

subsection \<open>\<open>startRecording\<close> and the session callbacks\<close>

text \<open>
  What the environment does to a call of \<open>startRecording\<close>: \<open>getUserMedia\<close> rejects, the
  client constructor throws, or \<open>connect\<close> returns a promise.
\<close>

datatype start_env = getUserMedia_rejects | GoogleGenAI_throws | connect settlement

definition microphone_error :: jsstring where
  "microphone_error = utf16 ''Could not access microphone. Please grant permission and try again.''"

definition startRecording :: "bool \<Rightarrow> start_env \<Rightarrow> App \<Rightarrow> App" where
  "startRecording isRecording_const env st0 =
     (let st1 = st0\<lparr>isConnecting := True, error := None,
                    userTranscript := [], malayalamTranslation := []\<rparr>
      in case env of
           getUserMedia_rejects \<Rightarrow>
             st1\<lparr>error := Some microphone_error, isConnecting := False\<rparr>
         | GoogleGenAI_throws \<Rightarrow>
             st1\<lparr>streamRef := Some MediaStream, isConnecting := False, isRecording := True,
                 error := Some microphone_error\<rparr>
         | connect s \<Rightarrow>
             st1\<lparr>streamRef := Some MediaStream, isConnecting := False, isRecording := True,
                 sessionPromiseRef := Some (LiveSessionPromise s isRecording_const)\<rparr>)"

text \<open>
  \<open>handleToggleRecording\<close> is created anew by every render and reads the \<open>isRecording\<close>
  of that render, the same constant the \<open>startRecording\<close> of that render closes over.
\<close>

definition handleToggleRecording :: "bool \<Rightarrow> start_env \<Rightarrow> App \<Rightarrow> App" where
  "handleToggleRecording isRecording_const env st =
     (if isRecording_const then snd (stopRecording st)
      else startRecording isRecording_const env st)"

text \<open>
  \<open>onopen\<close>: the audio context is created first; \<open>createMediaStreamSource\<close> throws a
  \<open>TypeError\<close> when the stream ref has been cleared in the meantime.
\<close>

definition onopen :: "bool \<Rightarrow> App \<Rightarrow> exception option \<times> App" where
  "onopen isRecording_const st0 =
     (let st1 = st0\<lparr>audioContextRef := Some suspended\<rparr>
      in case streamRef st1 of
           None \<Rightarrow> (Some TypeError, st1)
         | Some stream \<Rightarrow>
             (None, st1\<lparr>scriptProcessorRef := Some (ScriptProcessorNode isRecording_const),
                        calls := calls st1 @ [node_connect, node_connect]\<rparr>))"

datatype Transcription = Transcription (transcription_text: "jsstring option")

record LiveServerContent =
  inputTranscription :: "Transcription option"
  outputTranscription :: "Transcription option"
  turnComplete :: "bool option"

record LiveServerMessage =
  serverContent :: "LiveServerContent option"

text \<open>
  \<open>onmessage\<close>, first part: a partial input text is appended to the input ref and
  mirrored, then a partial output text likewise.
\<close>

definition append_transcriptions :: "LiveServerMessage \<Rightarrow> App \<Rightarrow> App" where
  "append_transcriptions message st0 =
     (let st1 = (case Option.bind (serverContent message) inputTranscription of
                   None \<Rightarrow> st0
                 | Some t \<Rightarrow>
                     (let acc = plus_assign (currentInputTranscriptionRef st0)
                                  (transcription_text t)
                      in st0\<lparr>currentInputTranscriptionRef := acc, userTranscript := acc\<rparr>))
      in case Option.bind (serverContent message) outputTranscription of
           None \<Rightarrow> st1
         | Some t \<Rightarrow>
             (let acc = plus_assign (currentOutputTranscriptionRef st1)
                          (transcription_text t)
              in st1\<lparr>currentOutputTranscriptionRef := acc, malayalamTranslation := acc\<rparr>))"

text \<open>Second part: the turn-complete branch.\<close>

definition onmessage :: "LiveServerMessage \<Rightarrow> App \<Rightarrow> App" where
  "onmessage message st0 =
     (let st2 = append_transcriptions message st0
      in if Option.bind (serverContent message) turnComplete = Some True
         then (let fullInput = currentInputTranscriptionRef st2;
                   fullOutput = currentOutputTranscriptionRef st2;
                   st3 = (if truthy (trim fullInput) \<or> truthy (trim fullOutput)
                          then setHistory
                                 (append_record \<lparr>user = fullInput, translation = fullOutput\<rparr>) st2
                          else st2)
               in st3\<lparr>userTranscript := [], malayalamTranslation := [],
                      currentInputTranscriptionRef := [],
                      currentOutputTranscriptionRef := []\<rparr>)
         else st2)"

definition onerror :: "jsstring option \<Rightarrow> App \<Rightarrow> App" where
  "onerror e_message st =
     snd (stopRecording
       (st\<lparr>error := Some (utf16 ''An error occurred: '' @ message_or_unknown e_message
                           @ utf16 ''. Please try again.'')\<rparr>))"

subsection \<open>The audio callback and its continuation\<close>

text \<open>
  \<open>onaudioprocess\<close> encodes the frame and, when the session ref is set, registers a
  continuation on the promise found there. The continuation runs later: the \<open>then\<close>
  callback when the promise is fulfilled, the \<open>catch\<close> handler when the promise is
  rejected or the \<open>then\<close> callback throws.
\<close>

datatype continuation =
  Continuation (awaited: LiveSessionPromise) (then_isRecording: bool) (pcmBlob: Blob)

definition onaudioprocess :: "bool \<Rightarrow> Float32Array \<Rightarrow> App \<Rightarrow> exception + continuation option" where
  "onaudioprocess isRecording_const inputData st =
     (case createBlob inputData of
        Inl e \<Rightarrow> Inl e
      | Inr blob \<Rightarrow>
          Inr (case sessionPromiseRef st of
                 None \<Rightarrow> None
               | Some p \<Rightarrow> Some (Continuation p isRecording_const blob)))"

datatype send_result = send_returns | send_throws

definition send_error :: jsstring where
  "send_error = utf16 ''Failed to send audio data. Please try again.''"

definition catch_send :: "App \<Rightarrow> App" where
  "catch_send st = snd (stopRecording (st\<lparr>error := Some send_error\<rparr>))"

definition run_continuation :: "continuation \<Rightarrow> send_result \<Rightarrow> App \<Rightarrow> App" where
  "run_continuation k r st =
     (case settles (awaited k) of
        rejected \<Rightarrow> catch_send st
      | fulfilled \<Rightarrow>
          if then_isRecording k
          then (let st1 = st\<lparr>calls := calls st @ [sendRealtimeInput (pcmBlob k)]\<rparr>
                in case r of send_returns \<Rightarrow> st1 | send_throws \<Rightarrow> catch_send st1)
          else st)"

subsection \<open>\<open>handleFileUpload\<close>\<close>

text \<open>
  What the environment does to a file upload: no file was chosen; reading the file, the
  request, \<open>response.text.trim()\<close> or \<open>JSON.parse\<close> throws an error with the given
  message; or \<open>JSON.parse\<close> returns an object of the declared response schema, with
  the two required string fields.
\<close>

datatype upload =
    no_file
  | throws "jsstring option"
  | parsed (transcription: jsstring) (translation_field: jsstring)

definition catch_upload :: "jsstring option \<Rightarrow> App \<Rightarrow> App" where
  "catch_upload err_message st =
     st\<lparr>error := Some (utf16 ''Failed to process audio file: '' @ message_or_unknown err_message)\<rparr>"

definition handleFileUpload :: "upload \<Rightarrow> App \<Rightarrow> App" where
  "handleFileUpload ev st0 =
     (case ev of
        no_file \<Rightarrow> st0
      | throws m \<Rightarrow>
          (catch_upload m
             (st0\<lparr>isProcessingFile := True, error := None,
                  userTranscript := [], malayalamTranslation := []\<rparr>))
            \<lparr>isProcessingFile := False\<rparr>
      | parsed t1 t2 \<Rightarrow>
          (let st1 = st0\<lparr>isProcessingFile := True, error := None,
                         userTranscript := [], malayalamTranslation := []\<rparr>;
               st2 = (if truthy t1 \<or> truthy t2
                      then (setHistory (append_record \<lparr>user = t1, translation = t2\<rparr>) st1)
                             \<lparr>userTranscript := t1, malayalamTranslation := t2\<rparr>
                      else catch_upload
                             (Some (utf16 ''Received empty transcription/translation.'')) st1)
           in st2\<lparr>isProcessingFile := False\<rparr>))"

subsection \<open>Runs of the component\<close>

text \<open>
  Sequential runs: the states the component reaches from its initial state when handlers
  run one after the other, each to its end, every call of \<open>stopRecording\<close> resumed at
  once at its awaits and every continuation run right after its frame. The button handler
  may belong to any render. Session callbacks belong to the session in the session ref and
  the audio callback to the node in the processor ref. The runs in which a handler comes
  between the stretches of \<open>stopRecording\<close> are those of \<open>run\<close> below.
\<close>

definition deliver_frame :: "ScriptProcessorNode \<Rightarrow> Float32Array \<Rightarrow> send_result \<Rightarrow> App \<Rightarrow> App" where
  "deliver_frame node inputData r st =
     (case onaudioprocess (onaudioprocess_isRecording node) inputData st of
        Inr (Some k) \<Rightarrow> run_continuation k r st
      | _ \<Rightarrow> st)"

inductive reachable :: "App \<Rightarrow> bool" where
  start: "reachable initial"
| toggle: "reachable st \<Longrightarrow> reachable (handleToggleRecording b env st)"
| opened: "reachable st \<Longrightarrow> sessionPromiseRef st = Some p \<Longrightarrow>
     reachable (snd (onopen (callbacks_isRecording p) st))"
| message: "reachable st \<Longrightarrow> reachable (onmessage m st)"
| failed: "reachable st \<Longrightarrow> reachable (onerror e st)"
| frame: "reachable st \<Longrightarrow> scriptProcessorRef st = Some node \<Longrightarrow>
     reachable (deliver_frame node inputData r st)"
| upload: "reachable st \<Longrightarrow> reachable (handleFileUpload ev st)"
| stop: "reachable st \<Longrightarrow> reachable (snd (stopRecording st))"
| rendered: "reachable st \<Longrightarrow> reachable (render st)"

text \<open>
  All runs. A configuration is the state together with the calls of \<open>stopRecording\<close>
  that are suspended, the continuations that frames have registered and that have not
  run yet, and the session promises that \<open>connect\<close> has returned so far. A step is one
  handler from its start to its return or its next await. \<open>stopRecording\<close> is called by
  the button of a render with \<open>isRecording = true\<close>, by the cleanup of the component, by
  \<open>onerror\<close> and by the catch handler of a continuation; \<open>startRecording\<close> is called
  by the button of a render with \<open>isRecording = false\<close>. The callbacks of a session may
  run whether or not the session ref still holds its promise, and a processor node that
  an \<open>onopen\<close> has connected may deliver frames after the processor ref has been
  overwritten. \<open>startRecording\<close> and \<open>handleFileUpload\<close> are taken whole: they write no
  ref before their awaits.
\<close>

fun waits :: "stop_outcome \<Rightarrow> stop_point list" where
  "waits (waiting w) = [w]"
| "waits returned = []"
| "waits (threw e) = []"

definition connected :: "start_env \<Rightarrow> bool \<Rightarrow> LiveSessionPromise list" where
  "connected env isRecording_const =
     (case env of connect s \<Rightarrow> [LiveSessionPromise s isRecording_const] | _ \<Rightarrow> [])"

definition onerror_begin :: "jsstring option \<Rightarrow> App \<Rightarrow> stop_outcome \<times> App" where
  "onerror_begin e_message st =
     stop_begin
       (st\<lparr>error := Some (utf16 ''An error occurred: '' @ message_or_unknown e_message
                           @ utf16 ''. Please try again.'')\<rparr>)"

definition catch_send_begin :: "App \<Rightarrow> stop_outcome \<times> App" where
  "catch_send_begin st = stop_begin (st\<lparr>error := Some send_error\<rparr>)"

definition continuation_begin :: "continuation \<Rightarrow> send_result \<Rightarrow> App \<Rightarrow> stop_outcome \<times> App" where
  "continuation_begin k r st =
     (case settles (awaited k) of
        rejected \<Rightarrow> catch_send_begin st
      | fulfilled \<Rightarrow>
          if then_isRecording k
          then (let st1 = st\<lparr>calls := calls st @ [sendRealtimeInput (pcmBlob k)]\<rparr>
                in case r of
                     send_returns \<Rightarrow> (returned, st1)
                   | send_throws \<Rightarrow> catch_send_begin st1)
          else (returned, st))"

inductive run ::
  "App \<Rightarrow> stop_point list \<Rightarrow> continuation list \<Rightarrow> LiveSessionPromise list \<Rightarrow> bool" where
  run_start: "run initial [] [] []"
| run_record: "run st ws ks ps \<Longrightarrow>
     run (handleToggleRecording False env st) ws ks (connected env False @ ps)"
| run_stop: "run st ws ks ps \<Longrightarrow> stop_begin st = (out, st') \<Longrightarrow>
     run st' (waits out @ ws) ks ps"
| run_closed: "run st ws ks ps \<Longrightarrow> awaiting_close \<in> set ws \<Longrightarrow>
     stop_after_close s st = (out, st') \<Longrightarrow>
     run st' (waits out @ remove1 awaiting_close ws) ks ps"
| run_settled: "run st ws ks ps \<Longrightarrow> awaiting_session p \<in> set ws \<Longrightarrow>
     stop_after_session p st = (out, st') \<Longrightarrow>
     run st' (remove1 (awaiting_session p) ws) ks ps"
| run_opened: "run st ws ks ps \<Longrightarrow> p \<in> set ps \<Longrightarrow>
     run (snd (onopen (callbacks_isRecording p) st)) ws ks ps"
| run_message: "run st ws ks ps \<Longrightarrow> run (onmessage m st) ws ks ps"
| run_failed: "run st ws ks ps \<Longrightarrow> onerror_begin e st = (out, st') \<Longrightarrow>
     run st' (waits out @ ws) ks ps"
| run_frame: "run st ws ks ps \<Longrightarrow> scriptProcessorRef st = Some node \<Longrightarrow>
     onaudioprocess (onaudioprocess_isRecording node) inputData st = Inr (Some k) \<Longrightarrow>
     run st ws (k # ks) ps"
| run_stray_frame: "run st ws ks ps \<Longrightarrow> p \<in> set ps \<Longrightarrow>
     onaudioprocess (callbacks_isRecording p) inputData st = Inr (Some k) \<Longrightarrow>
     run st ws (k # ks) ps"
| run_continued: "run st ws ks ps \<Longrightarrow> k \<in> set ks \<Longrightarrow>
     continuation_begin k r st = (out, st') \<Longrightarrow>
     run st' (waits out @ ws) (remove1 k ks) ps"
| run_upload: "run st ws ks ps \<Longrightarrow> run (handleFileUpload ev st) ws ks ps"
| run_rendered: "run st ws ks ps \<Longrightarrow> run (render st) ws ks ps"

text \<open>
  What every sequential run keeps true of the resource refs: a processor node is only
  held together with an audio context, and a held audio context is not closed.
\<close>

definition handles_consistent :: "App \<Rightarrow> bool" where
  "handles_consistent st =
     ((scriptProcessorRef st = None \<or> audioContextRef st \<noteq> None)
      \<and> audioContextRef st \<noteq> Some closed)"

definition handles_released :: "App \<Rightarrow> bool" where
  "handles_released st =
     (streamRef st = None \<and> scriptProcessorRef st = None
      \<and> audioContextRef st = None \<and> sessionPromiseRef st = None)"

text \<open>
  The calls of \<open>sendRealtimeInput\<close> among the calls made, and what holds of the closures
  in every run: the \<open>isRecording\<close> they have captured is false, and so far no frame has
  been sent.
\<close>

fun is_send :: "call \<Rightarrow> bool" where
  "is_send (sendRealtimeInput b) = True"
| "is_send c = False"

definition closures_stale :: "App \<Rightarrow> bool" where
  "closures_stale st =
     ((case sessionPromiseRef st of None \<Rightarrow> True | Some p \<Rightarrow> \<not> callbacks_isRecording p)
      \<and> (case scriptProcessorRef st of
            None \<Rightarrow> True
          | Some node \<Rightarrow> \<not> onaudioprocess_isRecording node)
      \<and> filter is_send (calls st) = [])"

text \<open>
  A recording episode from the initial state: the render shows \<open>isRecording = false\<close>,
  the button is clicked, the microphone is granted, the connection is made and the
  session reports that it is open.
\<close>

definition recording_started :: App where
  "recording_started =
     handleToggleRecording (isRecording initial) (connect fulfilled) initial"

definition recording_open :: App where
  "recording_open =
     (case sessionPromiseRef recording_started of
        None \<Rightarrow> recording_started
      | Some p \<Rightarrow> snd (onopen (callbacks_isRecording p) recording_started))"

text \<open>A server message that carries a partial input text, with or without turn-complete.\<close>

definition input_message :: "jsstring \<Rightarrow> bool \<Rightarrow> LiveServerMessage" where
  "input_message t tc =
     \<lparr>serverContent =
        Some \<lparr>inputTranscription = Some (Transcription (Some t)),
              outputTranscription = None,
              turnComplete = (if tc then Some True else None)\<rparr>\<rparr>"

text \<open>A recording episode in which a partial input text has arrived and no turn-complete.\<close>

definition pending_transcript :: "jsstring \<Rightarrow> App" where
  "pending_transcript t = onmessage (input_message t False) recording_open"

text \<open>The state a call of \<open>stopRecording\<close> that has run to its end leaves.\<close>

definition stopped :: "App \<Rightarrow> bool" where
  "stopped st =
     (handles_released st \<and> \<not> isRecording st \<and> \<not> isConnecting st
      \<and> userTranscript st = [] \<and> malayalamTranslation st = []
      \<and> currentInputTranscriptionRef st = [] \<and> currentOutputTranscriptionRef st = [])"

text \<open>
  The button is clicked again while the connection of \<open>recording_started\<close> is being
  made, and \<open>stopRecording\<close> is called a second time right after (the cleanup of the
  component, say). Both calls wait for the session promise. The connection opens and
  \<open>onopen\<close> runs; the promise is fulfilled and the two calls are resumed and return.
\<close>

definition connecting :: LiveSessionPromise where
  "connecting = LiveSessionPromise fulfilled False"

definition stopping_once :: App where
  "stopping_once = snd (stop_begin recording_started)"

definition stopping_twice :: App where
  "stopping_twice = snd (stop_begin stopping_once)"

definition opened_meanwhile :: App where
  "opened_meanwhile = snd (onopen (callbacks_isRecording connecting) stopping_twice)"

definition first_stop_returned :: App where
  "first_stop_returned = snd (stop_after_session connecting opened_meanwhile)"

definition second_stop_returned :: App where
  "second_stop_returned = snd (stop_after_session connecting first_stop_returned)"





section \<open>Properties of the encoder\<close>

subsection \<open>The two loops\<close>

lemma encode_loop_eq:
  "encode_loop bytes i binary = binary @ map fromCharCode (drop i bytes)"
proof (induction bytes i binary rule: encode_loop.induct)
  case (1 bytes i binary)
  show ?case
  proof (cases "i < length bytes")
    case True
    then have "drop i bytes = bytes ! i # drop (Suc i) bytes"
      by (simp add: Cons_nth_drop_Suc)
    with True "1" show ?thesis
      by (subst encode_loop.simps) simp
  next
    case False
    then show ?thesis by (subst encode_loop.simps) simp
  qed
qed

lemma createBlob_loop_eq:
  "i \<le> length samples \<Longrightarrow> length int16 = length samples \<Longrightarrow>
   createBlob_loop samples i int16 =
     take i int16 @ map (\<lambda>s. ToInt16 (times s 32768)) (drop i samples)"
proof (induction samples i int16 rule: createBlob_loop.induct)
  case (1 samples i int16)
  show ?case
  proof (cases "i < length samples")
    case True
    have d: "drop i samples = samples ! i # drop (Suc i) samples"
      using True by (simp add: Cons_nth_drop_Suc)
    have "createBlob_loop samples i int16 =
        createBlob_loop samples (i + 1) (int16[i := ToInt16 (times (samples ! i) 32768)])"
      using True by (subst createBlob_loop.simps) simp
    also have "\<dots> = take (i + 1) (int16[i := ToInt16 (times (samples ! i) 32768)]) @
        map (\<lambda>s. ToInt16 (times s 32768)) (drop (i + 1) samples)"
      using True "1.prems" by (intro "1.IH") simp_all
    also have "take (i + 1) (int16[i := ToInt16 (times (samples ! i) 32768)]) =
        take i int16 @ [ToInt16 (times (samples ! i) 32768)]"
      using True "1.prems" by (simp add: take_Suc_conv_app_nth)
    finally show ?thesis using d by simp
  next
    case False
    with "1.prems" show ?thesis by (subst createBlob_loop.simps) simp
  qed
qed

lemma createBlob_loop_map:
  "createBlob_loop samples 0 (replicate (length samples) 0) =
     map (\<lambda>s. ToInt16 (times s 32768)) samples"
  by (simp add: createBlob_loop_eq)

subsection \<open>The binary string never makes \<open>btoa\<close> throw\<close>

lemma fromCharCode_le: "\<not> fromCharCode b > 255"
proof -
  have "unat b < 256" using unsigned_less [of b] by simp
  then show ?thesis
    by (simp add: fromCharCode_def word_less_nat_alt unsigned_ucast_eq take_bit_eq_mod)
qed

lemma ucast_fromCharCode: "(ucast (fromCharCode b) :: 8 word) = b"
  by (simp add: fromCharCode_def ucast_down_ucast_id is_down)

lemma btoa_binary: "btoa (map fromCharCode bytes) = Inr (base64_of_bytes bytes)"
proof -
  have "\<not> list_ex (\<lambda>u. u > 255) (map fromCharCode bytes)"
    by (simp add: list_ex_iff fromCharCode_le)
  moreover have "map ucast (map fromCharCode bytes) = bytes"
    by (simp add: ucast_fromCharCode comp_def)
  ultimately show ?thesis
    by (simp only: btoa_def if_False)
qed

subsection \<open>Shifts and masks against the 24-bit group\<close>

lemma mask_3: "(3 :: 8 word) = mask 2"
  by (simp add: mask_numeral)

lemma mask_15: "(15 :: 8 word) = mask 4"
  by (simp add: mask_numeral)

lemma mask_63: "(63 :: 8 word) = mask 6"
  by (simp add: mask_numeral)

lemma bit_group24:
  "bit (group24 a b c) n \<longleftrightarrow>
     (if n < 8 then bit c n
      else if n < 16 then bit b (n - 8) else n < 24 \<and> bit a (n - 16))"
  by (auto simp: group24_def bit_simps dest: bit_imp_le_length)

lemma bit_group18:
  "bit (group18 a b) n \<longleftrightarrow>
     (if n < 2 then False
      else if n < 10 then bit b (n - 2) else n < 18 \<and> bit a (n - 10))"
  by (auto simp: group18_def bit_simps dest: bit_imp_le_length)

lemma bit_group12:
  "bit (group12 a) n \<longleftrightarrow> (if n < 4 then False else n < 12 \<and> bit a (n - 4))"
  by (auto simp: group12_def bit_simps dest: bit_imp_le_length)

lemma sextet_translate: "sextet (ucast s) = translate s"
proof -
  have "unat s < 64" using unsigned_less [of s] by simp
  then show ?thesis
    by (simp add: sextet_def translate_def b64char_def unsigned_ucast_eq take_bit_eq_mod)
qed

lemma full_1: "drop_bit 2 (a :: 8 word) = ucast (slice 18 (group24 a b c) :: 6 word)"
  by (rule bit_word_eqI) (auto simp: bit_simps bit_group24 dest: bit_imp_le_length)

lemma full_2:
  "push_bit 4 (a AND 3) OR drop_bit 4 (b :: 8 word) =
     ucast (slice 12 (group24 a b c) :: 6 word)"
  unfolding mask_3
  by (rule bit_word_eqI) (auto simp: bit_simps bit_group24 dest: bit_imp_le_length)

lemma full_3:
  "push_bit 2 (b AND 15) OR drop_bit 6 (c :: 8 word) =
     ucast (slice 6 (group24 a b c) :: 6 word)"
  unfolding mask_15
  by (rule bit_word_eqI) (auto simp: bit_simps bit_group24 dest: bit_imp_le_length)

lemma full_4: "(c :: 8 word) AND 63 = ucast (slice 0 (group24 a b c) :: 6 word)"
  unfolding mask_63
  by (rule bit_word_eqI) (auto simp: bit_simps bit_group24 dest: bit_imp_le_length)

lemma two_1: "drop_bit 2 (a :: 8 word) = ucast (slice 12 (group18 a b) :: 6 word)"
  by (rule bit_word_eqI) (auto simp: bit_simps bit_group18 dest: bit_imp_le_length)

lemma two_2:
  "push_bit 4 (a AND 3) OR drop_bit 4 (b :: 8 word) =
     ucast (slice 6 (group18 a b) :: 6 word)"
  unfolding mask_3
  by (rule bit_word_eqI) (auto simp: bit_simps bit_group18 dest: bit_imp_le_length)

lemma two_3: "push_bit 2 ((b :: 8 word) AND 15) = ucast (slice 0 (group18 a b) :: 6 word)"
  unfolding mask_15
  by (rule bit_word_eqI) (auto simp: bit_simps bit_group18 dest: bit_imp_le_length)

lemma one_1: "drop_bit 2 (a :: 8 word) = ucast (slice 6 (group12 a) :: 6 word)"
  by (rule bit_word_eqI) (auto simp: bit_simps bit_group12 dest: bit_imp_le_length)

lemma one_2: "push_bit 4 ((a :: 8 word) AND 3) = ucast (slice 0 (group12 a) :: 6 word)"
  unfolding mask_3
  by (rule bit_word_eqI) (auto simp: bit_simps bit_group12 dest: bit_imp_le_length)

lemma base64_of_bytes_rfc: "base64_of_bytes bs = rfc4648_base64 bs"
proof (induction bs rule: rfc4648_base64.induct)
  case (1 a b c rest)
  show ?case
    unfolding base64_of_bytes.simps rfc4648_base64.simps Let_def "1.IH"
      full_1 [of a b c] full_2 [of a b c] full_3 [of b c a] full_4 [of c a b]
      sextet_translate
    by (rule refl)
next
  case (2 a b)
  show ?case
    unfolding base64_of_bytes.simps rfc4648_base64.simps Let_def
      two_1 [of a b] two_2 [of a b] two_3 [of b a] sextet_translate
    by (rule refl)
next
  case (3 a)
  show ?case
    unfolding base64_of_bytes.simps rfc4648_base64.simps Let_def
      one_1 [of a] one_2 [of a] sextet_translate
    by (rule refl)
next
  case 4
  show ?case by simp
qed

lemma encode_rfc: "encode bytes = Inr (rfc4648_base64 bytes)"
  by (simp add: encode_def encode_loop_eq btoa_binary base64_of_bytes_rfc)

lemma base64_of_foobar:
  "base64_of_bytes [] = utf16 []"
  "base64_of_bytes [102] = utf16 ''Zg==''"
  "base64_of_bytes [102, 111] = utf16 ''Zm8=''"
  "base64_of_bytes [102, 111, 111] = utf16 ''Zm9v''"
  "base64_of_bytes [102, 111, 111, 98] = utf16 ''Zm9vYg==''"
  "base64_of_bytes [102, 111, 111, 98, 97] = utf16 ''Zm9vYmE=''"
  "base64_of_bytes [102, 111, 111, 98, 97, 114] = utf16 ''Zm9vYmFy''"
  by (simp_all add: sextet_def b64char_def alphabet_def utf16_def pad_def)

text \<open>
  Claim C10: \<open>encode\<close> is standard base64. For every byte sequence the call returns,
  without an exception, the RFC 4648 text of those bytes; the test vectors of section 10
  of the RFC ("", "f", "fo", "foo", "foob", "fooba", "foobar") come out as printed there.
\<close>

theorem encode_is_rfc4648_base64:
  "encode bytes = Inr (rfc4648_base64 bytes)
   \<and> rfc4648_base64 [] = utf16 []
   \<and> rfc4648_base64 [102] = utf16 ''Zg==''
   \<and> rfc4648_base64 [102, 111] = utf16 ''Zm8=''
   \<and> rfc4648_base64 [102, 111, 111] = utf16 ''Zm9v''
   \<and> rfc4648_base64 [102, 111, 111, 98] = utf16 ''Zm9vYg==''
   \<and> rfc4648_base64 [102, 111, 111, 98, 97] = utf16 ''Zm9vYmE=''
   \<and> rfc4648_base64 [102, 111, 111, 98, 97, 114] = utf16 ''Zm9vYmFy''"
  using encode_rfc [of bytes] base64_of_foobar
  unfolding base64_of_bytes_rfc
  by blast

subsection \<open>Wrap-around and byte order\<close>

text \<open>
  The claims describe the sample conversion in their own words: multiply by 32768, round
  towards zero, keep the low 16 bits as a signed value, and store the low byte first.
\<close>

lemma wrap_16:
  fixes k :: int
  shows "(if k mod 65536 \<ge> 32768 then k mod 65536 - 65536 else k mod 65536)
     = (k + 32768) mod 65536 - 32768"
proof -
  define r where "r = k mod 65536"
  have r: "0 \<le> r" "r < 65536" by (simp_all add: r_def)
  have eq: "(k + 32768) mod 65536 = (r + 32768) mod 65536"
    by (simp add: r_def mod_add_left_eq)
  show ?thesis
  proof (cases "r \<ge> 32768")
    case True
    have "(r + 32768) mod 65536 = (r + 32768 - 65536) mod 65536"
      by (simp only: minus_mod_self2)
    also have "\<dots> = r + 32768 - 65536"
      using True r by (intro mod_pos_pos_trivial) simp_all
    finally show ?thesis using True eq by (simp add: r_def)
  next
    case False
    then have "(r + 32768) mod 65536 = r + 32768"
      using r by (intro mod_pos_pos_trivial) simp_all
    then show ?thesis using False eq by (simp add: r_def)
  qed
qed

lemma ToInt16_sint: "ToInt16 (Finite x) = sint (word_of_int (js_truncate x) :: 16 word)"
proof -
  define k where "k = js_truncate x"
  have "ToInt16 (Finite x) =
      (if k mod 65536 \<ge> 32768 then k mod 65536 - 65536 else k mod 65536)"
    by (simp add: Let_def k_def)
  also have "\<dots> = (k + 32768) mod 65536 - 32768"
    by (rule wrap_16)
  also have "\<dots> = sint (word_of_int k :: 16 word)"
    by (simp add: sint_sbintrunc' signed_take_bit_eq_take_bit_shift take_bit_eq_mod)
  finally show ?thesis by (simp add: k_def)
qed

lemma low_byte: "(word_of_int (v mod 256) :: 8 word) = ucast (word_of_int v :: 16 word)"
proof -
  have "v mod 256 = take_bit 8 v" by (simp add: take_bit_eq_mod)
  then show ?thesis
    by (simp only:) (rule bit_word_eqI, auto simp: bit_simps)
qed

lemma high_byte:
  "(word_of_int (v div 256 mod 256) :: 8 word) = ucast (drop_bit 8 (word_of_int v :: 16 word))"
proof -
  have "v div 256 mod 256 = take_bit 8 (drop_bit 8 v)"
    by (simp add: take_bit_eq_mod drop_bit_eq_div)
  then show ?thesis
    by (simp only:) (rule bit_word_eqI, auto simp: bit_simps)
qed

lemma js_truncate_round: "js_truncate x = round_toward_zero x"
  by (simp add: js_truncate_def round_toward_zero_def ceiling_def)


lemma element_bytes_word: "element_bytes v = little_endian (word_of_int v)"
  unfolding element_bytes_def little_endian_def
  by (simp only: high_byte) (simp only: low_byte)

lemma ToInt16_pcm16: "ToInt16 (Finite (x * 32768)) = sint (pcm16 x)"
  by (simp add: ToInt16_sint pcm16_def js_truncate_round del: ToInt16.simps)

lemma element_bytes_pcm16:
  "element_bytes (ToInt16 (Finite (x * 32768))) = little_endian (pcm16 x)"
  by (simp add: ToInt16_pcm16 element_bytes_word del: ToInt16.simps)

lemma createBlob_eq:
  "createBlob samples =
     Inr \<lparr>data = rfc4648_base64
                   (Uint8Array_of_buffer (map (\<lambda>s. ToInt16 (times s 32768)) samples)),
          mimeType = utf16 ''audio/pcm;rate=16000''\<rparr>"
  by (simp add: createBlob_def Let_def createBlob_loop_map encode_rfc)

lemma length_buffer: "length (Uint8Array_of_buffer int16) = 2 * length int16"
  by (induction int16) (simp_all add: Uint8Array_of_buffer_def element_bytes_def)


lemma distinct_table: "distinct (utf16 alphabet)"
  by (simp add: utf16_def alphabet_def)

lemma length_table: "length (utf16 alphabet) = 64"
  by (simp add: utf16_def alphabet_def)

lemma pad_notin_table: "pad \<notin> set (utf16 alphabet)"
  by (simp add: utf16_def alphabet_def pad_def)

lemma index_of_nth: "distinct xs \<Longrightarrow> n < length xs \<Longrightarrow> index_of xs (xs ! n) = Some n"
proof (induction xs arbitrary: n)
  case Nil
  then show ?case by simp
next
  case (Cons x xs)
  show ?case
  proof (cases n)
    case 0
    then show ?thesis by simp
  next
    case (Suc m)
    with Cons.prems have "xs ! m \<in> set xs" "x \<notin> set xs" by simp_all
    then have "x \<noteq> xs ! m" by blast
    with Suc Cons show ?thesis by simp
  qed
qed

lemma translate_nth: "translate s = utf16 alphabet ! unat s"
proof -
  have "unat s < 64" using unsigned_less [of s] by simp
  then have "unat s < length alphabet" by (simp add: alphabet_def)
  then show ?thesis by (simp add: translate_def utf16_def)
qed

lemma untranslate_translate: "untranslate (translate s) = Some s"
proof -
  have "unat s < 64" using unsigned_less [of s] by simp
  then show ?thesis
    by (simp add: untranslate_def translate_nth index_of_nth distinct_table length_table)
qed

lemma translate_not_pad: "translate s \<noteq> pad"
proof -
  have "unat s < 64" using unsigned_less [of s] by simp
  then have "translate s \<in> set (utf16 alphabet)"
    by (simp add: translate_nth length_table)
  then show ?thesis using pad_notin_table by metis
qed

lemma bytes3_group24:
  "bytes3 (slice 18 (group24 a b c)) (slice 12 (group24 a b c))
     (slice 6 (group24 a b c)) (slice 0 (group24 a b c)) = [a, b, c]"
  unfolding bytes3_def Let_def list.inject
  by (intro conjI bit_word_eqI refl) (auto simp: bit_simps bit_group24 dest: bit_imp_le_length)

lemma bytes2_group18:
  "bytes2 (slice 12 (group18 a b)) (slice 6 (group18 a b)) (slice 0 (group18 a b)) = [a, b]"
  unfolding bytes2_def Let_def list.inject
  by (intro conjI bit_word_eqI refl) (auto simp: bit_simps bit_group18 dest: bit_imp_le_length)

lemma bytes1_group12: "bytes1 (slice 6 (group12 a)) (slice 0 (group12 a)) = [a]"
  unfolding bytes1_def Let_def list.inject
  by (intro conjI bit_word_eqI refl) (auto simp: bit_simps bit_group12 dest: bit_imp_le_length)

lemma decode_encode: "base64_decode (rfc4648_base64 bs) = Some bs"
proof (induction bs rule: rfc4648_base64.induct)
  case (1 a b c rest)
  then show ?case
    by (simp add: Let_def untranslate_translate translate_not_pad bytes3_group24)
next
  case (2 a b)
  show ?case
    by (simp add: Let_def untranslate_translate translate_not_pad bytes2_group18)
next
  case (3 a)
  show ?case
    by (simp add: Let_def untranslate_translate translate_not_pad bytes1_group12)
next
  case 4
  show ?case by simp
qed

lemma buffer_pcm16:
  "Uint8Array_of_buffer (map (\<lambda>s. ToInt16 (times s 32768)) (map Finite xs)) =
     concat (map (\<lambda>x. little_endian (pcm16 x)) xs)"
  by (induction xs) (simp_all add: Uint8Array_of_buffer_def element_bytes_pcm16 del: ToInt16.simps)

text \<open>
  Claim C4: each finite sample is scaled by 32768, rounded towards zero and wrapped into a
  signed 16-bit value, and the payload is the base64 text of those values, low byte
  first, in sample order. Nothing saturates: the sample 1.0 becomes -32768 and the sample
  2.0 becomes 0.
\<close>

theorem createBlob_pcm16_little_endian:
  "createBlob_loop (map Finite xs) 0 (replicate (length xs) 0) = map (\<lambda>x. sint (pcm16 x)) xs
   \<and> createBlob (map Finite xs) =
       Inr \<lparr>data = rfc4648_base64 (concat (map (\<lambda>x. little_endian (pcm16 x)) xs)),
            mimeType = utf16 ''audio/pcm;rate=16000''\<rparr>
   \<and> sint (pcm16 1) = - 32768
   \<and> sint (pcm16 2) = 0"
proof -
  have "createBlob_loop (map Finite xs) 0 (replicate (length xs) 0) =
      map (\<lambda>x. sint (pcm16 x)) xs"
    using createBlob_loop_map [of "map Finite xs"]
    by (simp add: ToInt16_pcm16 comp_def del: ToInt16.simps)
  moreover have "createBlob (map Finite xs) =
       Inr \<lparr>data = rfc4648_base64 (concat (map (\<lambda>x. little_endian (pcm16 x)) xs)),
            mimeType = utf16 ''audio/pcm;rate=16000''\<rparr>"
    by (simp only: createBlob_eq buffer_pcm16)
  moreover have "sint (pcm16 1) = - 32768" "sint (pcm16 2) = 0"
    by (simp_all add: pcm16_def round_toward_zero_def)
  ultimately show ?thesis by blast
qed

text \<open>
  Claim C5: for every sample sequence, whatever its elements, the encoder returns a blob
  with the fixed MIME descriptor whose payload decodes to twice as many bytes as there
  are samples; the empty frame gives the empty payload; no input makes it throw.
\<close>

theorem createBlob_payload_length:
  "(\<exists>d bytes. createBlob samples = Inr \<lparr>data = d, mimeType = utf16 ''audio/pcm;rate=16000''\<rparr>
       \<and> base64_decode d = Some bytes \<and> length bytes = 2 * length samples)
   \<and> createBlob [] = Inr \<lparr>data = [], mimeType = utf16 ''audio/pcm;rate=16000''\<rparr>"
proof -
  let ?bytes = "Uint8Array_of_buffer (map (\<lambda>s. ToInt16 (times s 32768)) samples)"
  have "createBlob samples =
      Inr \<lparr>data = rfc4648_base64 ?bytes, mimeType = utf16 ''audio/pcm;rate=16000''\<rparr>"
    by (rule createBlob_eq)
  moreover have "base64_decode (rfc4648_base64 ?bytes) = Some ?bytes"
    by (rule decode_encode)
  moreover have "length ?bytes = 2 * length samples"
    by (simp add: length_buffer)
  moreover have "createBlob [] = Inr \<lparr>data = [], mimeType = utf16 ''audio/pcm;rate=16000''\<rparr>"
    by (simp add: createBlob_eq Uint8Array_of_buffer_def)
  ultimately show ?thesis by blast
qed

section \<open>Properties of the component\<close>

subsection \<open>\<open>stopRecording\<close>, step by step\<close>

lemma close_context_Inr:
  "close_context st =
     Inr (if audioContextRef st = None \<or> audioContextRef st = Some closed then st
          else st\<lparr>calls := calls st @ [context_close], audioContextRef := None\<rparr>)"
  by (simp add: close_context_def AudioContext_close_def split: option.splits)

lemma stopRecording_eq:
  "stopRecording st =
     (None, commit_pending (close_session (projr (close_context
        (disconnect_processor (stop_tracks (st\<lparr>isRecording := False, isConnecting := False\<rparr>)))))))"
  by (simp add: stopRecording_def Let_def close_context_Inr)

lemma stopRecording_no_exception: "fst (stopRecording st) = None"
  by (simp add: stopRecording_eq)

lemma stop_tracks_fields [simp]:
  "isRecording (stop_tracks st) = isRecording st"
  "isConnecting (stop_tracks st) = isConnecting st"
  "isProcessingFile (stop_tracks st) = isProcessingFile st"
  "userTranscript (stop_tracks st) = userTranscript st"
  "malayalamTranslation (stop_tracks st) = malayalamTranslation st"
  "history (stop_tracks st) = history st"
  "history_queue (stop_tracks st) = history_queue st"
  "error (stop_tracks st) = error st"
  "sessionPromiseRef (stop_tracks st) = sessionPromiseRef st"
  "streamRef (stop_tracks st) = None"
  "audioContextRef (stop_tracks st) = audioContextRef st"
  "scriptProcessorRef (stop_tracks st) = scriptProcessorRef st"
  "currentInputTranscriptionRef (stop_tracks st) = currentInputTranscriptionRef st"
  "currentOutputTranscriptionRef (stop_tracks st) = currentOutputTranscriptionRef st"
  "calls (stop_tracks st) = calls st @ (if streamRef st \<noteq> None then [track_stop] else [])"
  by (simp_all add: stop_tracks_def)

lemma disconnect_processor_fields [simp]:
  "isRecording (disconnect_processor st) = isRecording st"
  "isConnecting (disconnect_processor st) = isConnecting st"
  "isProcessingFile (disconnect_processor st) = isProcessingFile st"
  "userTranscript (disconnect_processor st) = userTranscript st"
  "malayalamTranslation (disconnect_processor st) = malayalamTranslation st"
  "history (disconnect_processor st) = history st"
  "history_queue (disconnect_processor st) = history_queue st"
  "error (disconnect_processor st) = error st"
  "sessionPromiseRef (disconnect_processor st) = sessionPromiseRef st"
  "streamRef (disconnect_processor st) = streamRef st"
  "audioContextRef (disconnect_processor st) = audioContextRef st"
  "scriptProcessorRef (disconnect_processor st) = (if audioContextRef st \<noteq> None then None else scriptProcessorRef st)"
  "currentInputTranscriptionRef (disconnect_processor st) = currentInputTranscriptionRef st"
  "currentOutputTranscriptionRef (disconnect_processor st) = currentOutputTranscriptionRef st"
  "calls (disconnect_processor st) = calls st @ (if scriptProcessorRef st \<noteq> None \<and> audioContextRef st \<noteq> None then [node_disconnect] else [])"
  by (simp_all add: disconnect_processor_def)

lemma close_context_fields [simp]:
  "isRecording (projr (close_context st)) = isRecording st"
  "isConnecting (projr (close_context st)) = isConnecting st"
  "isProcessingFile (projr (close_context st)) = isProcessingFile st"
  "userTranscript (projr (close_context st)) = userTranscript st"
  "malayalamTranslation (projr (close_context st)) = malayalamTranslation st"
  "history (projr (close_context st)) = history st"
  "history_queue (projr (close_context st)) = history_queue st"
  "error (projr (close_context st)) = error st"
  "sessionPromiseRef (projr (close_context st)) = sessionPromiseRef st"
  "streamRef (projr (close_context st)) = streamRef st"
  "audioContextRef (projr (close_context st)) = (if audioContextRef st = Some closed then Some closed else None)"
  "scriptProcessorRef (projr (close_context st)) = scriptProcessorRef st"
  "currentInputTranscriptionRef (projr (close_context st)) = currentInputTranscriptionRef st"
  "currentOutputTranscriptionRef (projr (close_context st)) = currentOutputTranscriptionRef st"
  "calls (projr (close_context st)) = calls st @ (if audioContextRef st = None \<or> audioContextRef st = Some closed then [] else [context_close])"
  by (auto simp: close_context_Inr)

lemma close_session_fields [simp]:
  "isRecording (close_session st) = isRecording st"
  "isConnecting (close_session st) = isConnecting st"
  "isProcessingFile (close_session st) = isProcessingFile st"
  "userTranscript (close_session st) = userTranscript st"
  "malayalamTranslation (close_session st) = malayalamTranslation st"
  "history (close_session st) = history st"
  "history_queue (close_session st) = history_queue st"
  "error (close_session st) = error st"
  "sessionPromiseRef (close_session st) = None"
  "streamRef (close_session st) = streamRef st"
  "audioContextRef (close_session st) = audioContextRef st"
  "scriptProcessorRef (close_session st) = scriptProcessorRef st"
  "currentInputTranscriptionRef (close_session st) = currentInputTranscriptionRef st"
  "currentOutputTranscriptionRef (close_session st) = currentOutputTranscriptionRef st"
  "calls (close_session st) = calls st @ (case sessionPromiseRef st of None \<Rightarrow> [] | Some p \<Rightarrow> (case settles p of fulfilled \<Rightarrow> [session_close] | rejected \<Rightarrow> []))"
  by (simp_all add: close_session_def split: option.splits settlement.splits)

lemma commit_pending_fields [simp]:
  "isRecording (commit_pending st) = isRecording st"
  "isConnecting (commit_pending st) = isConnecting st"
  "isProcessingFile (commit_pending st) = isProcessingFile st"
  "userTranscript (commit_pending st) = []"
  "malayalamTranslation (commit_pending st) = []"
  "history (commit_pending st) = history st"
  "history_queue (commit_pending st) = history_queue st @ (if truthy (currentInputTranscriptionRef st) \<or> truthy (currentOutputTranscriptionRef st) then [append_refs] else [])"
  "error (commit_pending st) = error st"
  "sessionPromiseRef (commit_pending st) = sessionPromiseRef st"
  "streamRef (commit_pending st) = streamRef st"
  "audioContextRef (commit_pending st) = audioContextRef st"
  "scriptProcessorRef (commit_pending st) = scriptProcessorRef st"
  "currentInputTranscriptionRef (commit_pending st) = []"
  "currentOutputTranscriptionRef (commit_pending st) = []"
  "calls (commit_pending st) = calls st"
  by (simp_all add: commit_pending_def setHistory_def)

lemma stopRecording_fields [simp]:
  "isRecording (snd (stopRecording st)) = False"
  "isConnecting (snd (stopRecording st)) = False"
  "isProcessingFile (snd (stopRecording st)) = isProcessingFile st"
  "userTranscript (snd (stopRecording st)) = []"
  "malayalamTranslation (snd (stopRecording st)) = []"
  "history (snd (stopRecording st)) = history st"
  "history_queue (snd (stopRecording st)) = history_queue st @ (if truthy (currentInputTranscriptionRef st) \<or> truthy (currentOutputTranscriptionRef st) then [append_refs] else [])"
  "error (snd (stopRecording st)) = error st"
  "sessionPromiseRef (snd (stopRecording st)) = None"
  "streamRef (snd (stopRecording st)) = None"
  "audioContextRef (snd (stopRecording st)) = (if audioContextRef st = Some closed then Some closed else None)"
  "scriptProcessorRef (snd (stopRecording st)) = (if audioContextRef st \<noteq> None then None else scriptProcessorRef st)"
  "currentInputTranscriptionRef (snd (stopRecording st)) = []"
  "currentOutputTranscriptionRef (snd (stopRecording st)) = []"
  by (simp_all add: stopRecording_eq)


lemma stopRecording_sends [simp]:
  "filter is_send (calls (snd (stopRecording st))) = filter is_send (calls st)"
  by (simp add: stopRecording_eq split: option.splits settlement.splits)

lemma stopRecording_released:
  "handles_consistent st \<Longrightarrow> handles_released (snd (stopRecording st))"
  by (auto simp: handles_consistent_def handles_released_def)

lemma stopRecording_fixed:
  assumes "handles_released st" "\<not> isRecording st" "\<not> isConnecting st"
    "userTranscript st = []" "malayalamTranslation st = []"
    "currentInputTranscriptionRef st = []" "currentOutputTranscriptionRef st = []"
  shows "stopRecording st = (None, st)"
proof -
  have 1: "st\<lparr>isRecording := False, isConnecting := False\<rparr> = st"
    using assms by (cases st) simp
  have 2: "stop_tracks st = st" "disconnect_processor st = st"
    "projr (close_context st) = st" "close_session st = st"
    using assms
    by (simp_all add: handles_released_def stop_tracks_def disconnect_processor_def
          close_context_Inr close_session_def)
  have 3: "commit_pending st = st"
    using assms by (cases st) (simp add: commit_pending_def truthy_def)
  show ?thesis
    by (simp only: stopRecording_eq 1 2 3)
qed

lemma stopRecording_twice:
  assumes "handles_consistent st"
  shows "stopRecording (snd (stopRecording st)) = (None, snd (stopRecording st))"
  using stopRecording_released [OF assms]
  by (intro stopRecording_fixed) simp_all

subsection \<open>What every sequential run preserves\<close>

lemma startRecording_refs [simp]:
  "audioContextRef (startRecording c env st) = audioContextRef st"
  "scriptProcessorRef (startRecording c env st) = scriptProcessorRef st"
  "calls (startRecording c env st) = calls st"
  "sessionPromiseRef (startRecording c env st) =
     (case env of connect s \<Rightarrow> Some (LiveSessionPromise s c) | _ \<Rightarrow> sessionPromiseRef st)"
  by (simp_all add: startRecording_def Let_def split: start_env.splits)

lemma onopen_refs [simp]:
  "audioContextRef (snd (onopen c st)) = Some suspended"
  "scriptProcessorRef (snd (onopen c st)) =
     (if streamRef st = None then scriptProcessorRef st else Some (ScriptProcessorNode c))"
  "filter is_send (calls (snd (onopen c st))) = filter is_send (calls st)"
  "sessionPromiseRef (snd (onopen c st)) = sessionPromiseRef st"
  by (simp_all add: onopen_def Let_def split: option.splits)

lemma append_transcriptions_refs [simp]:
  "audioContextRef (append_transcriptions m st) = audioContextRef st"
  "scriptProcessorRef (append_transcriptions m st) = scriptProcessorRef st"
  "calls (append_transcriptions m st) = calls st"
  "sessionPromiseRef (append_transcriptions m st) = sessionPromiseRef st"
  "history (append_transcriptions m st) = history st"
  "history_queue (append_transcriptions m st) = history_queue st"
  by (simp_all add: append_transcriptions_def Let_def split: option.splits)

lemma onmessage_refs [simp]:
  "audioContextRef (onmessage m st) = audioContextRef st"
  "scriptProcessorRef (onmessage m st) = scriptProcessorRef st"
  "calls (onmessage m st) = calls st"
  "sessionPromiseRef (onmessage m st) = sessionPromiseRef st"
  by (simp_all add: onmessage_def Let_def setHistory_def)

lemma handleFileUpload_refs [simp]:
  "audioContextRef (handleFileUpload ev st) = audioContextRef st"
  "scriptProcessorRef (handleFileUpload ev st) = scriptProcessorRef st"
  "calls (handleFileUpload ev st) = calls st"
  "sessionPromiseRef (handleFileUpload ev st) = sessionPromiseRef st"
  by (simp_all add: handleFileUpload_def Let_def setHistory_def catch_upload_def
        split: upload.splits)

lemma render_refs [simp]:
  "audioContextRef (render st) = audioContextRef st"
  "scriptProcessorRef (render st) = scriptProcessorRef st"
  "calls (render st) = calls st"
  "sessionPromiseRef (render st) = sessionPromiseRef st"
  by (simp_all add: render_def)

lemma stopped_invariants:
  "handles_consistent st \<Longrightarrow> handles_consistent (snd (stopRecording st))"
  "closures_stale st \<Longrightarrow> closures_stale (snd (stopRecording st))"
  by (auto simp: handles_consistent_def closures_stale_def split: option.splits)

lemma set_error_invariants [simp]:
  "handles_consistent (st\<lparr>error := e\<rparr>) = handles_consistent st"
  "closures_stale (st\<lparr>error := e\<rparr>) = closures_stale st"
  by (simp_all add: handles_consistent_def closures_stale_def)

lemma deliver_frame_stale:
  assumes "closures_stale st" "scriptProcessorRef st = Some node"
  shows "deliver_frame node inputData r st = st
     \<or> deliver_frame node inputData r st = catch_send st"
proof -
  from assms have "\<not> onaudioprocess_isRecording node"
    by (simp add: closures_stale_def)
  then show ?thesis
    by (auto simp: deliver_frame_def onaudioprocess_def createBlob_eq run_continuation_def
          split: option.splits settlement.splits)
qed

lemma reachable_invariants:
  "reachable st \<Longrightarrow> handles_consistent st \<and> closures_stale st"
proof (induction rule: reachable.induct)
  case start
  show ?case
    by (simp add: initial_def handles_consistent_def closures_stale_def)
next
  case (toggle st b env)
  then show ?case
    by (cases b)
       (auto simp: handleToggleRecording_def stopped_invariants handles_consistent_def
          closures_stale_def split: option.splits start_env.splits)
next
  case (opened st p)
  then show ?case
    by (auto simp: handles_consistent_def closures_stale_def split: option.splits)
next
  case (message st m)
  then show ?case
    by (simp add: handles_consistent_def closures_stale_def)
next
  case (failed st e)
  then show ?case
    by (simp add: onerror_def stopped_invariants)
next
  case (frame st node inputData r)
  then have "deliver_frame node inputData r st = st
     \<or> deliver_frame node inputData r st = catch_send st"
    by (intro deliver_frame_stale) simp_all
  with frame show ?case
    by (auto simp: catch_send_def stopped_invariants)
next
  case (upload st ev)
  then show ?case
    by (simp add: handles_consistent_def closures_stale_def)
next
  case (stop st)
  then show ?case
    by (simp add: stopped_invariants)
next
  case (rendered st)
  then show ?case
    by (simp add: handles_consistent_def closures_stale_def)
qed

subsection \<open>\<open>stopRecording\<close>, await by await\<close>

lemma stop_uninterrupted_eq: "stop_uninterrupted st = (returned, snd (stopRecording st))"
  by (simp add: stop_uninterrupted_def stop_begin_def stop_after_close_def
        stop_session_step_def stop_after_session_def stopRecording_eq close_context_Inr
        close_session_def Let_def split: option.splits settlement.splits)

lemma stopped_after_stop: "handles_consistent st \<Longrightarrow> stopped (snd (stopRecording st))"
  using stopRecording_released [of st] by (simp add: stopped_def)

lemma stopped_fixed: "stopped st \<Longrightarrow> stopRecording st = (None, st)"
  by (rule stopRecording_fixed) (simp_all add: stopped_def)

lemma stopped_begin: "stopped st \<Longrightarrow> stop_begin st = (returned, st)"
proof -
  assume a: "stopped st"
  then have "stop_uninterrupted st = (returned, st)"
    by (simp add: stop_uninterrupted_eq stopped_fixed)
  moreover from a have "stop_uninterrupted st = stop_begin st"
    by (simp add: stop_uninterrupted_def stop_begin_def stop_session_step_def Let_def
          stopped_def handles_released_def)
  ultimately show ?thesis by simp
qed

lemma stopped_update [simp]:
  "stopped (st\<lparr>error := e\<rparr>) = stopped st"
  "stopped (st\<lparr>calls := c\<rparr>) = stopped st"
  by (simp_all add: stopped_def handles_released_def)

lemma stop_begin_stale:
  "closures_stale st \<Longrightarrow> closures_stale (snd (stop_begin st))"
  by (auto simp: stop_begin_def stop_session_step_def Let_def closures_stale_def
        split: option.splits)

lemma stop_after_close_stale:
  "closures_stale st \<Longrightarrow> closures_stale (snd (stop_after_close s st))"
  by (auto simp: stop_after_close_def stop_session_step_def closures_stale_def
        split: option.splits settlement.splits)

lemma stop_after_session_stale:
  "closures_stale st \<Longrightarrow> closures_stale (snd (stop_after_session p st))"
  by (auto simp: stop_after_session_def closures_stale_def
        split: option.splits settlement.splits)

lemma continuation_begin_stale:
  "closures_stale st \<Longrightarrow> \<not> then_isRecording k \<Longrightarrow>
   closures_stale (snd (continuation_begin k r st))"
  by (auto simp: continuation_begin_def catch_send_begin_def stop_begin_stale
        split: settlement.splits)

lemma run_invariants:
  "run st ws ks ps \<Longrightarrow>
     closures_stale st \<and> (\<forall>p \<in> set ps. \<not> callbacks_isRecording p)
     \<and> (\<forall>k \<in> set ks. \<not> then_isRecording k)"
proof (induction rule: run.induct)
  case run_start
  show ?case by (simp add: initial_def closures_stale_def)
next
  case (run_record st ws ks ps env)
  then show ?case
    by (auto simp: handleToggleRecording_def connected_def closures_stale_def
          split: start_env.splits option.splits)
next
  case (run_stop st ws ks ps out st')
  then show ?case using stop_begin_stale [of st] by simp
next
  case (run_closed st ws ks ps s out st')
  then show ?case using stop_after_close_stale [of st s] by simp
next
  case (run_settled st ws ks ps p out st')
  then show ?case using stop_after_session_stale [of st p] by simp
next
  case (run_opened st ws ks ps p)
  then show ?case
    by (auto simp: closures_stale_def split: option.splits)
next
  case (run_message st ws ks ps m)
  then show ?case by (simp add: closures_stale_def)
next
  case (run_failed st ws ks ps e out st')
  then show ?case
    using stop_begin_stale [of "st\<lparr>error := Some (utf16 ''An error occurred: ''
        @ message_or_unknown e @ utf16 ''. Please try again.'')\<rparr>"]
    by (simp add: onerror_begin_def)
next
  case (run_frame st ws ks ps node inputData k)
  then show ?case
    by (auto simp: onaudioprocess_def createBlob_eq closures_stale_def split: option.splits)
next
  case (run_stray_frame st ws ks ps p inputData k)
  then show ?case
    by (auto simp: onaudioprocess_def createBlob_eq closures_stale_def split: option.splits)
next
  case (run_continued st ws ks ps k r out st')
  then have "\<not> then_isRecording k" by simp
  with run_continued show ?case
    using continuation_begin_stale [of st k r] by (auto dest: notin_set_remove1)
next
  case (run_upload st ws ks ps ev)
  then show ?case by (simp add: closures_stale_def)
next
  case (run_rendered st ws ks ps)
  then show ?case by (simp add: closures_stale_def)
qed

lemma no_run_sends_a_frame: "run st ws ks ps \<Longrightarrow> filter is_send (calls st) = []"
  using run_invariants [of st ws ks ps] by (simp add: closures_stale_def)

subsection \<open>Sequential runs are runs\<close>

lemma stop_begin_not_threw: "fst (stop_begin st) \<noteq> threw e"
  by (simp add: stop_begin_def stop_session_step_def Let_def split: option.splits)

lemma run_finish_stop:
  assumes "stop_begin st0 = (out, st1)" and "run st1 (waits out @ ws) ks ps"
  shows "run (snd (stopRecording st0)) ws ks ps"
proof -
  have u: "stop_uninterrupted st0 = (returned, snd (stopRecording st0))"
    by (rule stop_uninterrupted_eq)
  show ?thesis
  proof (cases out)
    case returned
    with assms(1) u have "st1 = snd (stopRecording st0)"
      by (simp add: stop_uninterrupted_def)
    with assms(2) returned show ?thesis by simp
  next
    case (threw e)
    with assms(1) stop_begin_not_threw [of st0 e] show ?thesis by simp
  next
    case (waiting w)
    show ?thesis
    proof (cases w)
      case (awaiting_session p)
      with waiting assms(1) u
      have "stop_after_session p st1 = (returned, snd (stopRecording st0))"
        by (simp add: stop_uninterrupted_def)
      moreover from assms(2) waiting awaiting_session
      have "run st1 (awaiting_session p # ws) ks ps" by simp
      ultimately have "run (snd (stopRecording st0))
          (remove1 (awaiting_session p) (awaiting_session p # ws)) ks ps"
        by (intro run_settled [where st = st1 and out = returned]) simp_all
      then show ?thesis by simp
    next
      case awaiting_close
      obtain out2 st2 where c: "stop_after_close fulfilled st1 = (out2, st2)"
        by (cases "stop_after_close fulfilled st1")
      from assms(2) waiting awaiting_close
      have "run st1 (awaiting_close # ws) ks ps" by simp
      then have "run st2 (waits out2 @ remove1 awaiting_close (awaiting_close # ws)) ks ps"
        using c by (intro run_closed [where st = st1 and s = fulfilled]) simp_all
      then have r2: "run st2 (waits out2 @ ws) ks ps" by simp
      show ?thesis
      proof (cases out2)
        case returned
        with c waiting awaiting_close assms(1) u have "st2 = snd (stopRecording st0)"
          by (simp add: stop_uninterrupted_def)
        with r2 returned show ?thesis by simp
      next
        case (threw e)
        with c show ?thesis
          by (simp add: stop_after_close_def stop_session_step_def split: option.splits)
      next
        case (waiting w2)
        with c obtain p where p: "w2 = awaiting_session p"
          by (auto simp: stop_after_close_def stop_session_step_def split: option.splits)
        with c \<open>out = waiting w\<close> awaiting_close waiting assms(1) u
        have "stop_after_session p st2 = (returned, snd (stopRecording st0))"
          by (simp add: stop_uninterrupted_def)
        moreover from r2 waiting p have "run st2 (awaiting_session p # ws) ks ps" by simp
        ultimately have "run (snd (stopRecording st0))
            (remove1 (awaiting_session p) (awaiting_session p # ws)) ks ps"
          by (intro run_settled [where st = st2 and out = returned]) simp_all
        then show ?thesis by simp
      qed
    qed
  qed
qed

lemma run_stopRecording:
  assumes "run st ws ks ps"
  shows "run (snd (stopRecording st)) ws ks ps"
proof -
  obtain out st1 where b: "stop_begin st = (out, st1)"
    by (cases "stop_begin st")
  with assms have "run st1 (waits out @ ws) ks ps"
    by (rule run_stop)
  with b show ?thesis by (rule run_finish_stop)
qed

lemma run_onerror:
  assumes "run st ws ks ps"
  shows "run (onerror e st) ws ks ps"
proof -
  obtain out st1 where b: "onerror_begin e st = (out, st1)"
    by (cases "onerror_begin e st")
  with assms have "run st1 (waits out @ ws) ks ps"
    by (rule run_failed)
  with b show ?thesis
    unfolding onerror_begin_def onerror_def by (rule run_finish_stop)
qed

lemma run_run_continuation:
  assumes "run st ws ks ps" and "k \<in> set ks"
  shows "run (run_continuation k r st) ws (remove1 k ks) ps"
proof -
  obtain out st1 where b: "continuation_begin k r st = (out, st1)"
    by (cases "continuation_begin k r st")
  with assms have r1: "run st1 (waits out @ ws) (remove1 k ks) ps"
    by (rule run_continued)
  show ?thesis
  proof (cases "settles (awaited k)")
    case rejected
    with b have "stop_begin (st\<lparr>error := Some send_error\<rparr>) = (out, st1)"
      by (simp add: continuation_begin_def catch_send_begin_def)
    then have "run (snd (stopRecording (st\<lparr>error := Some send_error\<rparr>))) ws (remove1 k ks) ps"
      using r1 by (rule run_finish_stop)
    with rejected show ?thesis
      by (simp add: run_continuation_def catch_send_def)
  next
    case fulfilled
    show ?thesis
    proof (cases "then_isRecording k \<and> r = send_throws")
      case True
      with b fulfilled
      have "stop_begin (st\<lparr>calls := calls st @ [sendRealtimeInput (pcmBlob k)],
          error := Some send_error\<rparr>) = (out, st1)"
        by (simp add: continuation_begin_def catch_send_begin_def Let_def)
      then have "run (snd (stopRecording (st\<lparr>calls := calls st @ [sendRealtimeInput (pcmBlob k)],
          error := Some send_error\<rparr>))) ws (remove1 k ks) ps"
        using r1 by (rule run_finish_stop)
      with True fulfilled show ?thesis
        by (simp add: run_continuation_def catch_send_def Let_def)
    next
      case False
      with b fulfilled have "out = returned" "st1 = run_continuation k r st"
        by (cases r; auto simp: continuation_begin_def run_continuation_def Let_def
              split: if_splits)+
      with r1 show ?thesis by simp
    qed
  qed
qed

lemma sequential_runs_are_runs:
  "reachable st \<Longrightarrow>
     \<exists>ps. run st [] [] ps \<and> (\<forall>p. sessionPromiseRef st = Some p \<longrightarrow> p \<in> set ps)"
proof (induction rule: reachable.induct)
  case start
  have "run initial [] [] []" by (rule run_start)
  then show ?case by (auto simp: initial_def)
next
  case (toggle st b env)
  then obtain ps where r: "run st [] [] ps"
    and s: "\<forall>p. sessionPromiseRef st = Some p \<longrightarrow> p \<in> set ps" by blast
  show ?case
  proof (cases b)
    case True
    from r have "run (snd (stopRecording st)) [] [] ps" by (rule run_stopRecording)
    with True show ?thesis by (auto simp: handleToggleRecording_def)
  next
    case False
    from r have "run (handleToggleRecording False env st) [] [] (connected env False @ ps)"
      by (rule run_record)
    with False s show ?thesis
      by (auto simp: handleToggleRecording_def connected_def split: start_env.splits
            intro!: exI [of _ "connected env False @ ps"])
  qed
next
  case (opened st p)
  then obtain ps where r: "run st [] [] ps"
    and s: "\<forall>p. sessionPromiseRef st = Some p \<longrightarrow> p \<in> set ps" by blast
  with opened have "p \<in> set ps" by simp
  with r have "run (snd (onopen (callbacks_isRecording p) st)) [] [] ps"
    by (rule run_opened)
  with s show ?case by auto
next
  case (message st m)
  then show ?case by (auto intro: run_message)
next
  case (failed st e)
  then obtain ps where r: "run st [] [] ps" by blast
  then have "run (onerror e st) [] [] ps" by (rule run_onerror)
  then show ?case by (auto simp: onerror_def)
next
  case (frame st node inputData r)
  then obtain ps where r: "run st [] [] ps"
    and s: "\<forall>p. sessionPromiseRef st = Some p \<longrightarrow> p \<in> set ps" by blast
  show ?case
  proof (cases "sessionPromiseRef st")
    case None
    then have "deliver_frame node inputData r st = st"
      by (simp add: deliver_frame_def onaudioprocess_def createBlob_eq)
    with r s show ?thesis by auto
  next
    case (Some p)
    define k where "k = Continuation p (onaudioprocess_isRecording node)
      \<lparr>data = rfc4648_base64
                 (Uint8Array_of_buffer (map (\<lambda>s. ToInt16 (times s 32768)) inputData)),
        mimeType = utf16 ''audio/pcm;rate=16000''\<rparr>"
    from Some have k: "onaudioprocess (onaudioprocess_isRecording node) inputData st
        = Inr (Some k)"
      by (simp add: onaudioprocess_def createBlob_eq k_def)
    with r frame.hyps(2) have "run st [] [k] ps" by (rule run_frame)
    then have "run (run_continuation k r st) [] (remove1 k [k]) ps"
      by (rule run_run_continuation) simp
    moreover from k have d: "deliver_frame node inputData r st = run_continuation k r st"
      by (simp add: deliver_frame_def)
    moreover have "sessionPromiseRef (run_continuation k r st) = Some q \<Longrightarrow> q \<in> set ps" for q
      using s by (auto simp: run_continuation_def catch_send_def Let_def
            split: settlement.splits send_result.splits if_splits)
    ultimately show ?thesis by auto
  qed
next
  case (upload st ev)
  then show ?case by (auto intro: run_upload)
next
  case (stop st)
  then obtain ps where r: "run st [] [] ps" by blast
  then have "run (snd (stopRecording st)) [] [] ps" by (rule run_stopRecording)
  then show ?case by auto
next
  case (rendered st)
  then show ?case by (auto intro: run_rendered)
qed

subsection \<open>Blank and empty strings\<close>

lemma dropWhile_nonempty: "dropWhile P xs \<noteq> [] \<longleftrightarrow> list_ex (\<lambda>x. \<not> P x) xs"
  by (induction xs) simp_all

lemma list_ex_dropWhile:
  "list_ex (\<lambda>x. \<not> P x) (dropWhile P xs) \<longleftrightarrow> list_ex (\<lambda>x. \<not> P x) xs"
  by (induction xs) simp_all

lemma truthy_trim: "truthy (trim s) \<longleftrightarrow> nonblank s"
proof -
  have "truthy (trim s) \<longleftrightarrow> dropWhile isWhiteSpace (rev (dropWhile isWhiteSpace s)) \<noteq> []"
    by (simp add: truthy_def trim_def)
  also have "\<dots> \<longleftrightarrow> list_ex (\<lambda>u. \<not> isWhiteSpace u) (rev (dropWhile isWhiteSpace s))"
    by (rule dropWhile_nonempty)
  also have "\<dots> \<longleftrightarrow> list_ex (\<lambda>u. \<not> isWhiteSpace u) (dropWhile isWhiteSpace s)"
    by (simp add: list_ex_iff)
  also have "\<dots> \<longleftrightarrow> nonblank s"
    by (simp only: list_ex_dropWhile nonblank_def)
  finally show ?thesis .
qed

lemma nonblank_truthy: "nonblank s \<Longrightarrow> truthy s"
  by (cases s) (simp_all add: nonblank_def truthy_def)

lemma recording_started_eq:
  "recording_started =
     initial\<lparr>isRecording := True, streamRef := Some MediaStream,
             sessionPromiseRef := Some (LiveSessionPromise fulfilled False)\<rparr>"
  by (simp add: recording_started_def handleToggleRecording_def startRecording_def initial_def)

lemma recording_open_eq:
  "recording_open =
     initial\<lparr>isRecording := True, streamRef := Some MediaStream,
             sessionPromiseRef := Some (LiveSessionPromise fulfilled False),
             audioContextRef := Some suspended,
             scriptProcessorRef := Some (ScriptProcessorNode False),
             calls := [node_connect, node_connect]\<rparr>"
  by (simp add: recording_open_def recording_started_eq onopen_def initial_def)

lemma reachable_recording_started: "reachable recording_started"
  unfolding recording_started_def by (intro reachable.toggle reachable.start)

lemma reachable_recording_open: "reachable recording_open"
proof -
  have "sessionPromiseRef recording_started = Some (LiveSessionPromise fulfilled False)"
    by (simp add: recording_started_eq initial_def)
  then have "recording_open =
      snd (onopen (callbacks_isRecording (LiveSessionPromise fulfilled False)) recording_started)"
    by (simp add: recording_open_def)
  moreover have "reachable
      (snd (onopen (callbacks_isRecording (LiveSessionPromise fulfilled False)) recording_started))"
    using reachable_recording_started
       \<open>sessionPromiseRef recording_started = Some (LiveSessionPromise fulfilled False)\<close>
    by (rule reachable.opened)
  ultimately show ?thesis by simp
qed

lemma no_frame_is_ever_sent: "reachable st \<Longrightarrow> filter is_send (calls st) = []"
  using reachable_invariants [of st] by (simp add: closures_stale_def)

subsection \<open>Frames during a recording episode\<close>

text \<open>
  Claim C1 says that a frame delivered while the session is open and recording is active
  is handed to the session. The code does not do that. In the episode \<open>recording_open\<close>
  (click on the button of a render with \<open>isRecording = false\<close>, microphone granted,
  connection fulfilled, \<open>onopen\<close> run) the state says that recording is active and the
  session ref is set, the audio callback encodes the frame and registers its continuation,
  and the continuation tests the \<open>isRecording\<close> of the render that started the episode,
  which is false: no \<open>sendRealtimeInput\<close> is made. By \<open>no_frame_is_ever_sent\<close> this is
  so in every sequential run, and by \<open>no_run_sends_a_frame\<close> in every run.
\<close>

theorem open_recording_drops_frame:
  "isRecording recording_open
   \<and> sessionPromiseRef recording_open = Some (LiveSessionPromise fulfilled False)
   \<and> scriptProcessorRef recording_open = Some (ScriptProcessorNode False)
   \<and> onaudioprocess False [Finite (1 / 2)] recording_open =
       Inr (Some (Continuation (LiveSessionPromise fulfilled False) False
         \<lparr>data = utf16 ''AEA='', mimeType = utf16 ''audio/pcm;rate=16000''\<rparr>))
   \<and> deliver_frame (ScriptProcessorNode False) [Finite (1 / 2)] send_returns recording_open =
       recording_open
   \<and> filter is_send (calls recording_open) = []"
proof -
  have blob: "createBlob [Finite (1 / 2)] =
      Inr \<lparr>data = utf16 ''AEA='', mimeType = utf16 ''audio/pcm;rate=16000''\<rparr>"
    by code_simp
  have refs: "sessionPromiseRef recording_open = Some (LiveSessionPromise fulfilled False)"
    "scriptProcessorRef recording_open = Some (ScriptProcessorNode False)"
    "isRecording recording_open" "calls recording_open = [node_connect, node_connect]"
    by (simp_all add: recording_open_eq initial_def)
  have k: "onaudioprocess False [Finite (1 / 2)] recording_open =
       Inr (Some (Continuation (LiveSessionPromise fulfilled False) False
         \<lparr>data = utf16 ''AEA='', mimeType = utf16 ''audio/pcm;rate=16000''\<rparr>))"
    by (simp only: onaudioprocess_def blob refs sum.case option.case)
  have "deliver_frame (ScriptProcessorNode False) [Finite (1 / 2)] send_returns recording_open =
       recording_open"
    by (simp add: deliver_frame_def k run_continuation_def)
  with refs k show ?thesis by simp
qed

subsection \<open>Turn complete\<close>

text \<open>
  Claim C2: on a message with turn-complete, with no history update pending, the history
  shown at the next render is the previous one plus a record of the two accumulators
  (as they are after the partial texts of the same message have been appended) exactly
  when one of them has a character that is not white space; in both cases the two refs
  and the two mirrors are empty afterwards.
\<close>

theorem turn_complete_commits_iff_nonblank:
  assumes "Option.bind (serverContent m) turnComplete = Some True"
    and "history_queue st = []"
  shows "history (render (onmessage m st)) =
      (if nonblank (currentInputTranscriptionRef (append_transcriptions m st))
          \<or> nonblank (currentOutputTranscriptionRef (append_transcriptions m st))
       then history st @
          [\<lparr>user = currentInputTranscriptionRef (append_transcriptions m st),
            translation = currentOutputTranscriptionRef (append_transcriptions m st)\<rparr>]
       else history st)
    \<and> currentInputTranscriptionRef (onmessage m st) = []
    \<and> currentOutputTranscriptionRef (onmessage m st) = []
    \<and> userTranscript (onmessage m st) = []
    \<and> malayalamTranslation (onmessage m st) = []"
  using assms
  by (simp add: onmessage_def Let_def setHistory_def render_def truthy_trim)

text \<open>The two examples of the specification: "hello" is committed, two spaces are not.\<close>

theorem turn_complete_commits_hello:
  "history (render (onmessage (input_message (utf16 ''hello'') True) initial)) =
      [\<lparr>user = utf16 ''hello'', translation = []\<rparr>]
   \<and> history (render (onmessage (input_message (utf16 ''  '') True) initial)) = []
   \<and> currentInputTranscriptionRef (onmessage (input_message (utf16 ''hello'') True) initial) = []
   \<and> userTranscript (onmessage (input_message (utf16 ''hello'') True) initial) = []"
proof -
  have a: "Option.bind (serverContent (input_message t True)) turnComplete = Some True" for t
    by (simp add: input_message_def)
  have b: "history_queue initial = []" "history initial = []"
    by (simp_all add: initial_def)
  have c: "currentInputTranscriptionRef (append_transcriptions (input_message t True) initial) = t"
    "currentOutputTranscriptionRef (append_transcriptions (input_message t True) initial) = []" for t
    by (simp_all add: append_transcriptions_def input_message_def initial_def plus_assign_def)
  have d: "nonblank (utf16 ''hello'')" "\<not> nonblank (utf16 ''  '')" "\<not> nonblank []"
    by (simp_all add: nonblank_def utf16_def isWhiteSpace_def)
  show ?thesis
    using turn_complete_commits_iff_nonblank [OF a b(1), of "utf16 ''hello''"]
      turn_complete_commits_iff_nonblank [OF a b(1), of "utf16 ''  ''"]
    by (simp add: b c d)
qed

lemma pending_transcript_eq:
  "pending_transcript t =
     recording_open\<lparr>currentInputTranscriptionRef := t, userTranscript := t\<rparr>"
  by (simp add: pending_transcript_def onmessage_def append_transcriptions_def
        input_message_def plus_assign_def Let_def recording_open_eq initial_def)

lemma reachable_pending_transcript: "reachable (pending_transcript t)"
  unfolding pending_transcript_def
  by (intro reachable.message reachable_recording_open)

subsection \<open>Stopping with a partial transcript\<close>

text \<open>
  Claim C3 says that \<open>stopRecording\<close> commits the pending accumulators exactly when one
  of them is non-blank, in a record that holds their contents. The code tests the refs
  for truthiness, without \<open>trim\<close>, and its updater reads the refs when React runs it,
  after they have been cleared. With a single space as pending input (blank, so no
  record is due) a record is committed; with "partial text" pending the committed record
  has lost the text. The turn-complete branch of \<open>onmessage\<close> trims and copies the refs
  into constants first.
\<close>

theorem stop_commits_blank_transcript:
  "\<not> nonblank (currentInputTranscriptionRef (pending_transcript (utf16 '' '')))
   \<and> \<not> nonblank (currentOutputTranscriptionRef (pending_transcript (utf16 '' '')))
   \<and> history (render (snd (stopRecording (pending_transcript (utf16 '' ''))))) =
        [\<lparr>user = [], translation = []\<rparr>]
   \<and> history (render (snd (stopRecording (pending_transcript (utf16 ''partial text''))))) =
        [\<lparr>user = [], translation = []\<rparr>]"
  by (simp add: pending_transcript_eq recording_open_eq initial_def render_def
        nonblank_def utf16_def isWhiteSpace_def truthy_def)

subsection \<open>File upload\<close>

text \<open>
  Claim C7: with no history update pending, a parsed response with a non-blank field adds
  exactly the record of the two fields to the history of the next render and mirrors
  them, with no error; a response with two empty fields, and a failure to read, request
  or parse, leave the history as it was and set an error message.
\<close>

theorem file_upload_commit:
  assumes "history_queue st = []"
  shows "(nonblank t1 \<or> nonblank t2 \<longrightarrow>
        history (render (handleFileUpload (parsed t1 t2) st)) =
          history st @ [\<lparr>user = t1, translation = t2\<rparr>]
        \<and> userTranscript (handleFileUpload (parsed t1 t2) st) = t1
        \<and> malayalamTranslation (handleFileUpload (parsed t1 t2) st) = t2
        \<and> error (handleFileUpload (parsed t1 t2) st) = None)
    \<and> history (render (handleFileUpload (parsed [] []) st)) = history st
    \<and> error (handleFileUpload (parsed [] []) st) =
        Some (utf16 ''Failed to process audio file: Received empty transcription/translation.'')
    \<and> history (render (handleFileUpload (throws e) st)) = history st
    \<and> error (handleFileUpload (throws e) st) =
        Some (utf16 ''Failed to process audio file: '' @ message_or_unknown e)"
proof -
  have 1: "nonblank t1 \<or> nonblank t2 \<Longrightarrow> truthy t1 \<or> truthy t2"
    using nonblank_truthy by blast
  have 2: "message_or_unknown (Some (utf16 ''Received empty transcription/translation.'')) =
      utf16 ''Received empty transcription/translation.''"
    by (simp add: message_or_unknown_def truthy_def utf16_def)
  have 3: "utf16 ''Failed to process audio file: '' @
        utf16 ''Received empty transcription/translation.'' =
      utf16 ''Failed to process audio file: Received empty transcription/translation.''"
    by (simp add: utf16_def)
  show ?thesis
    using assms 1
    by (auto simp: handleFileUpload_def Let_def setHistory_def render_def catch_upload_def
          truthy_def 2 3)
qed

text \<open>The two response bodies of the specification.\<close>

theorem file_upload_commit_hi_navi:
  "history (render (handleFileUpload (parsed (utf16 ''hi'') (utf16 ''navi'')) initial)) =
      [\<lparr>user = utf16 ''hi'', translation = utf16 ''navi''\<rparr>]
   \<and> userTranscript (handleFileUpload (parsed (utf16 ''hi'') (utf16 ''navi'')) initial) = utf16 ''hi''
   \<and> malayalamTranslation (handleFileUpload (parsed (utf16 ''hi'') (utf16 ''navi'')) initial) =
       utf16 ''navi''
   \<and> history (render (handleFileUpload (parsed [] []) initial)) = []
   \<and> error (handleFileUpload (parsed [] []) initial) =
        Some (utf16 ''Failed to process audio file: Received empty transcription/translation.'')"
proof -
  have a: "history_queue initial = []" "history initial = []"
    by (simp_all add: initial_def)
  have b: "nonblank (utf16 ''hi'')"
    by (simp add: nonblank_def utf16_def isWhiteSpace_def)
  show ?thesis
    using file_upload_commit [OF a(1), of "utf16 ''hi''" "utf16 ''navi''"] a b
    by simp
qed

subsection \<open>A send that fails\<close>

text \<open>
  Claim C8: when the send of a frame fails (the session promise is rejected, or the
  \<open>then\<close> callback calls \<open>sendRealtimeInput\<close> and the call throws) the continuation
  sets the error message and runs \<open>stopRecording\<close>, as \<open>onerror\<close> does with its own
  message; afterwards the message is shown, recording is off and the stream and session
  refs are empty.
\<close>

theorem failed_send_stops_recording:
  assumes "settles (awaited k) = rejected
     \<or> (settles (awaited k) = fulfilled \<and> then_isRecording k \<and> r = send_throws)"
  shows "(\<exists>st'. (st' = st \<or> st' = st\<lparr>calls := calls st @ [sendRealtimeInput (pcmBlob k)]\<rparr>)
        \<and> run_continuation k r st = snd (stopRecording (st'\<lparr>error := Some send_error\<rparr>))
        \<and> onerror e st' =
            snd (stopRecording (st'\<lparr>error := Some (utf16 ''An error occurred: ''
                  @ message_or_unknown e @ utf16 ''. Please try again.'')\<rparr>)))
    \<and> error (run_continuation k r st) = Some send_error
    \<and> \<not> isRecording (run_continuation k r st)
    \<and> streamRef (run_continuation k r st) = None
    \<and> sessionPromiseRef (run_continuation k r st) = None"
  using assms
  by (auto simp: run_continuation_def catch_send_def onerror_def Let_def)

text \<open>A send that throws, and a rejected session promise, in an open recording episode.\<close>

theorem failed_send_stops_recording_throw:
  "error (run_continuation (Continuation (LiveSessionPromise fulfilled True) True
            \<lparr>data = [], mimeType = utf16 ''audio/pcm;rate=16000''\<rparr>) send_throws recording_open)
     = Some send_error
   \<and> \<not> isRecording (run_continuation (Continuation (LiveSessionPromise fulfilled True) True
            \<lparr>data = [], mimeType = utf16 ''audio/pcm;rate=16000''\<rparr>) send_throws recording_open)
   \<and> sessionPromiseRef (run_continuation (Continuation (LiveSessionPromise rejected False) False
            \<lparr>data = [], mimeType = utf16 ''audio/pcm;rate=16000''\<rparr>) send_returns recording_open)
     = None"
  using failed_send_stops_recording
      [of "Continuation (LiveSessionPromise fulfilled True) True
            \<lparr>data = [], mimeType = utf16 ''audio/pcm;rate=16000''\<rparr>" send_throws recording_open]
    failed_send_stops_recording
      [of "Continuation (LiveSessionPromise rejected False) False
            \<lparr>data = [], mimeType = utf16 ''audio/pcm;rate=16000''\<rparr>" send_returns recording_open]
  by simp

subsection \<open>Stopping twice\<close>

lemma stopping_once_eq:
  "stopping_once =
     initial\<lparr>sessionPromiseRef := Some connecting, calls := [track_stop]\<rparr>"
  by (simp add: stopping_once_def stop_begin_def stop_session_step_def Let_def
        recording_started_eq connecting_def initial_def stop_tracks_def
        disconnect_processor_def)

lemma stopping_twice_eq: "stopping_twice = stopping_once"
  by (simp add: stopping_twice_def stop_begin_def stop_session_step_def Let_def
        stopping_once_eq initial_def stop_tracks_def disconnect_processor_def)

lemma opened_meanwhile_eq:
  "opened_meanwhile =
     initial\<lparr>sessionPromiseRef := Some connecting, calls := [track_stop],
             audioContextRef := Some suspended\<rparr>"
  by (simp add: opened_meanwhile_def stopping_twice_eq stopping_once_eq onopen_def
        initial_def)

lemma first_stop_returned_eq:
  "first_stop_returned =
     initial\<lparr>calls := [track_stop, session_close], audioContextRef := Some suspended\<rparr>"
  by (simp add: first_stop_returned_def stop_after_session_def opened_meanwhile_eq
        connecting_def commit_pending_def truthy_def initial_def)

lemma second_stop_returned_eq:
  "second_stop_returned =
     initial\<lparr>calls := [track_stop, session_close, session_close],
             audioContextRef := Some suspended\<rparr>"
  by (simp add: second_stop_returned_def stop_after_session_def first_stop_returned_eq
        connecting_def commit_pending_def truthy_def initial_def)

lemma run_second_stop_returned: "run second_stop_returned [] [] [connecting]"
proof -
  have "run initial [] [] []" by (rule run_start)
  then have "run (handleToggleRecording False (connect fulfilled) initial) [] []
      (connected (connect fulfilled) False @ [])"
    by (rule run_record)
  then have 1: "run recording_started [] [] [connecting]"
    by (simp add: recording_started_def connected_def connecting_def initial_def)
  have b1: "stop_begin recording_started = (waiting (awaiting_session connecting), stopping_once)"
    by (simp add: stop_begin_def stop_session_step_def Let_def recording_started_eq
          stopping_once_eq connecting_def initial_def stop_tracks_def disconnect_processor_def)
  from 1 b1 have "run stopping_once (waits (waiting (awaiting_session connecting)) @ [])
      [] [connecting]"
    by (rule run_stop)
  then have 2: "run stopping_once [awaiting_session connecting] [] [connecting]" by simp
  have b2: "stop_begin stopping_once = (waiting (awaiting_session connecting), stopping_twice)"
    by (simp add: stop_begin_def stop_session_step_def Let_def stopping_twice_eq
          stopping_once_eq initial_def stop_tracks_def disconnect_processor_def)
  from 2 b2 have "run stopping_twice
      (waits (waiting (awaiting_session connecting)) @ [awaiting_session connecting])
      [] [connecting]"
    by (rule run_stop)
  then have 3: "run stopping_twice [awaiting_session connecting, awaiting_session connecting]
      [] [connecting]" by simp
  then have 4: "run opened_meanwhile [awaiting_session connecting, awaiting_session connecting]
      [] [connecting]"
    unfolding opened_meanwhile_def by (rule run_opened) simp
  have b3: "stop_after_session connecting opened_meanwhile = (returned, first_stop_returned)"
    by (simp add: first_stop_returned_def stop_after_session_def)
  from 4 have "run first_stop_returned
      (remove1 (awaiting_session connecting)
         [awaiting_session connecting, awaiting_session connecting]) [] [connecting]"
    using b3 by (intro run_settled [where st = opened_meanwhile and out = returned]) simp_all
  then have 5: "run first_stop_returned [awaiting_session connecting] [] [connecting]"
    by simp
  have b4: "stop_after_session connecting first_stop_returned = (returned, second_stop_returned)"
    by (simp add: second_stop_returned_def stop_after_session_def)
  from 5 have "run second_stop_returned
      (remove1 (awaiting_session connecting) [awaiting_session connecting]) [] [connecting]"
    using b4 by (intro run_settled [where st = first_stop_returned and out = returned]) simp_all
  then show ?thesis by simp
qed

lemma processor_without_context_is_kept:
  "audioContextRef st = None \<Longrightarrow>
   scriptProcessorRef (snd (stopRecording st)) = scriptProcessorRef st"
  by simp

lemma second_close_is_rejected:
  "fst (stop_begin recording_open) = waiting awaiting_close
   \<and> fst (stop_begin (snd (stop_begin recording_open))) = waiting awaiting_close
   \<and> fst (stop_after_close rejected (snd (stop_begin (snd (stop_begin recording_open))))) =
       threw InvalidStateError"
  by (simp add: stop_begin_def stop_after_close_def Let_def recording_open_eq initial_def
        stop_tracks_def disconnect_processor_def)

text \<open>
  Claim C6 as it is stated fails when the connection opens while two calls of
  \<open>stopRecording\<close>, made one after the other, wait for the session promise: \<open>onopen\<close>
  creates the audio context after both calls have passed the step that closes it; both
  calls return without an exception, and the audio-context ref is left set. (Two more
  ways out of the claim: a processor node held without an audio context is kept by the
  guard of its step, \<open>processor_without_context_is_kept\<close>; a second call made while the
  first awaits \<open>close()\<close> throws where the platform rejects closing a context that is
  being closed, \<open>second_close_is_rejected\<close>.)
\<close>

theorem stop_twice_leaves_audio_context:
  "stop_begin recording_started = (waiting (awaiting_session connecting), stopping_once)
   \<and> stop_begin stopping_once = (waiting (awaiting_session connecting), stopping_twice)
   \<and> onopen (callbacks_isRecording connecting) stopping_twice = (Some TypeError, opened_meanwhile)
   \<and> stop_after_session connecting opened_meanwhile = (returned, first_stop_returned)
   \<and> stop_after_session connecting first_stop_returned = (returned, second_stop_returned)
   \<and> audioContextRef first_stop_returned = Some suspended
   \<and> audioContextRef second_stop_returned = Some suspended
   \<and> \<not> handles_released second_stop_returned"
proof -
  have "stop_begin recording_started = (waiting (awaiting_session connecting), stopping_once)"
    by (simp add: stop_begin_def stop_session_step_def Let_def recording_started_eq
          stopping_once_eq connecting_def initial_def stop_tracks_def disconnect_processor_def)
  moreover have "stop_begin stopping_once =
      (waiting (awaiting_session connecting), stopping_twice)"
    by (simp add: stop_begin_def stop_session_step_def Let_def stopping_twice_eq
          stopping_once_eq initial_def stop_tracks_def disconnect_processor_def)
  moreover have "onopen (callbacks_isRecording connecting) stopping_twice =
      (Some TypeError, opened_meanwhile)"
    by (simp add: onopen_def opened_meanwhile_eq stopping_twice_eq stopping_once_eq
          initial_def)
  moreover have "stop_after_session connecting opened_meanwhile =
      (returned, first_stop_returned)"
    by (simp add: first_stop_returned_def stop_after_session_def)
  moreover have "stop_after_session connecting first_stop_returned =
      (returned, second_stop_returned)"
    by (simp add: second_stop_returned_def stop_after_session_def)
  moreover have "audioContextRef first_stop_returned = Some suspended"
    "audioContextRef second_stop_returned = Some suspended"
    by (simp_all add: first_stop_returned_eq second_stop_returned_eq)
  ultimately show ?thesis
    by (simp add: handles_released_def)
qed

text \<open>
  Claim C6, amended: in a sequential run, a call of \<open>stopRecording\<close> that no other
  handler interrupts at its awaits returns without an exception and leaves the stream,
  processor, audio-context and session refs empty; a further call then returns in its
  first stretch, with nothing to await, and changes nothing; so does a call in the
  initial state, before any start. (Each release step has a guard; the guard of the
  processor step asks for the audio-context ref as well.)
\<close>

theorem uninterrupted_stop_idempotent:
  assumes "reachable st"
  shows "stop_uninterrupted st = (returned, snd (stopRecording st))
    \<and> handles_released (snd (stopRecording st))
    \<and> stop_begin (snd (stopRecording st)) = (returned, snd (stopRecording st))
    \<and> stop_begin initial = (returned, initial)"
proof -
  from assms have "handles_consistent st"
    using reachable_invariants by blast
  then have s: "stopped (snd (stopRecording st))"
    by (rule stopped_after_stop)
  have "stopped initial"
    by (simp add: stopped_def handles_released_def initial_def)
  with s show ?thesis
    by (simp add: stop_uninterrupted_eq stopped_begin stopped_def)
qed

text \<open>An open recording episode, stopped twice.\<close>

theorem uninterrupted_stop_idempotent_recording:
  "stop_uninterrupted recording_open = (returned, snd (stopRecording recording_open))
   \<and> handles_released (snd (stopRecording recording_open))
   \<and> stop_begin (snd (stopRecording recording_open)) =
       (returned, snd (stopRecording recording_open))
   \<and> calls (snd (stopRecording recording_open)) =
       [node_connect, node_connect, track_stop, node_disconnect, context_close, session_close]"
proof -
  have "calls (snd (stopRecording recording_open)) =
       [node_connect, node_connect, track_stop, node_disconnect, context_close, session_close]"
    by (simp add: stopRecording_eq recording_open_eq initial_def)
  then show ?thesis
    using uninterrupted_stop_idempotent [OF reachable_recording_open] by simp
qed

subsection \<open>A continuation that runs after the stop\<close>







end
